theory Spec2Isabelle
  imports Complex_Main
begin

section \<open>The hook \<open>useCanvasImage\<close> of \<open>src/index.js\<close>\<close>

text \<open>
  The hook mirrors a canvas into an \<open>img\<close> element placed after it. Its code is a handful
  of closures over two refs (\<open>canvasRef\<close>, \<open>imgRef\<close>), a retry timeout, an interval timer
  and \<open>requestAnimationFrame\<close>. The embedding below keeps one HOL function per closure
  of the source, with the same names, over an explicit state: the part of the document
  the hook touches, the two refs, and the host's queues of pending callbacks. What the
  host runs later (a timeout firing, an animation frame, the caller invoking the returned
  value) is an event; \<open>step\<close> executes one event, \<open>run\<close> a sequence of them.
\<close>

subsection \<open>The document\<close>

text \<open>
  Nodes are addresses into a store of elements, so that the refs of the hook and the
  document share the elements they point to. An element carries what the hook reads or
  writes: whether it is an \<open>HTMLCanvasElement\<close>, its attributes (the inline style is the
  \<open>style\<close> attribute, the class list the \<open>class\<close> attribute, an image's source the \<open>src\<close>
  attribute) and, for a canvas, its bitmap. \<open>doc\<close> lists the children of the canvas's
  container in document order; a node of the store that is not in \<open>doc\<close> has no parent.
\<close>

datatype kind = Canvas | Image | Other

type_synonym node = nat

record element =
  kind :: kind
  attrs :: "string \<rightharpoonup> string"
  pixels :: string

datatype error = TypeError | SyntaxError | InvalidCharacterError

datatype 'a outcome = Returns 'a | Throws error 'a

fun state_of :: "'a outcome \<Rightarrow> 'a" where
  "state_of (Returns s) = s"
| "state_of (Throws e s) = s"

fun thrown :: "'a outcome \<Rightarrow> error option" where
  "thrown (Returns s) = None"
| "thrown (Throws e s) = Some e"

text \<open>Sequencing of statements: an exception skips the rest of the function body.\<close>

fun and_then :: "'a outcome \<Rightarrow> ('a \<Rightarrow> 'a outcome) \<Rightarrow> 'a outcome" where
  "and_then (Returns s) f = f s"
| "and_then (Throws e s) f = Throws e s"

subsection \<open>Arguments of the hook\<close>

text \<open>
  The \<open>canvas\<close> argument is a selector string, a React ref (an object whose \<open>current\<close> the
  caller's framework fills in; its target is part of the state), an element, or any
  other value. \<open>interval\<close> is \<open>null\<close> (the default), \<open>false\<close>, or a number of milliseconds.
\<close>

datatype reference = Selector string | Ref | Element node | Unrecognised

datatype interval = IntervalNull | IntervalFalse | Ms nat

record config =
  canvas :: reference
  imgClassname :: string
  canvasClassname :: string
  canvasAttributes :: "(string \<times> string) list"
  fileType :: string
  quality :: rat
  interval :: interval

text \<open>
  What the browser decides and the source does not: which elements a selector matches
  and whether it parses, which attribute names \<open>setAttribute\<close> accepts, and how
  \<open>toDataURL\<close> encodes a bitmap for a MIME type and a quality.
\<close>

record host =
  matches :: "string \<Rightarrow> element \<Rightarrow> bool"
  valid_selector :: "string \<Rightarrow> bool"
  valid_name :: "string \<Rightarrow> bool"
  encode :: "string \<Rightarrow> string \<Rightarrow> rat \<Rightarrow> string"

subsection \<open>State\<close>

datatype phase = Unmounted | Mounted | TornDown

record state =
  store :: "node \<rightharpoonup> element"
  doc :: "node list"
  fresh :: node
  ref_target :: "node option"
  canvasRef :: "node option"
  imgRef :: "node option"
  reselectTimeout :: "nat option"
  timeouts :: "nat list"
  next_timeout :: nat
  interval_armed :: bool
  frames :: nat
  created :: "node list"
  reads :: nat
  phase :: phase

text \<open>
  \<open>canvasRef\<close> and \<open>imgRef\<close> are the \<open>current\<close> of the two \<open>useRef()\<close> cells (\<open>None\<close> for
  \<open>undefined\<close> and \<open>null\<close>); \<open>reselectTimeout\<close> is the variable of that name in the effect
  (the id \<open>setTimeout\<close> returned last), \<open>timeouts\<close> the ids of the timeouts still pending;
  \<open>interval_armed\<close> says whether \<open>useInterval\<close> has a timer running; \<open>frames\<close> counts the
  callbacks queued by \<open>requestAnimationFrame\<close>. \<open>created\<close> logs the nodes made by
  \<open>new Image()\<close> and \<open>reads\<close> counts the calls of \<open>toDataURL\<close> that returned.
\<close>

definition init :: "element list \<Rightarrow> element list \<Rightarrow> state" where
  "init attached detached =
     \<lparr> store = (\<lambda>n. if n < length (attached @ detached)
                       then Some ((attached @ detached) ! n) else None),
       doc = [0 ..< length attached],
       fresh = length (attached @ detached),
       ref_target = None, canvasRef = None, imgRef = None,
       reselectTimeout = None, timeouts = [], next_timeout = 1,
       interval_armed = False, frames = 0, created = [], reads = 0,
       phase = Unmounted \<rparr>"

subsection \<open>DOM operations the source calls\<close>

definition is_canvas :: "state \<Rightarrow> node \<Rightarrow> bool" where
  "is_canvas s n = (case store s n of None \<Rightarrow> False | Some e \<Rightarrow> kind e = Canvas)"

definition update_element :: "node \<Rightarrow> (element \<Rightarrow> element) \<Rightarrow> state \<Rightarrow> state" where
  "update_element n f s =
     (case store s n of None \<Rightarrow> s | Some e \<Rightarrow> s\<lparr>store := (store s)(n \<mapsto> f e)\<rparr>)"

definition set_attr :: "node \<Rightarrow> string \<Rightarrow> string \<Rightarrow> state \<Rightarrow> state" where
  "set_attr n k v = update_element n (\<lambda>e. e\<lparr>attrs := (attrs e)(k \<mapsto> v)\<rparr>)"

text \<open>\<open>document.querySelector\<close>: the first match in document order, \<open>null\<close> without one.\<close>

definition querySelector :: "host \<Rightarrow> string \<Rightarrow> state \<Rightarrow> node option" where
  "querySelector h sel s =
     find (\<lambda>n. case store s n of None \<Rightarrow> False | Some e \<Rightarrow> matches h sel e) (doc s)"

text \<open>\<open>el.setAttribute(name, value)\<close> raises on a name the browser rejects.\<close>

definition setAttribute :: "host \<Rightarrow> node \<Rightarrow> string \<Rightarrow> string \<Rightarrow> state \<Rightarrow> state outcome" where
  "setAttribute h n k v s =
     (if valid_name h k then Returns (set_attr n k v s) else Throws InvalidCharacterError s)"

text \<open>
  \<open>String.prototype.split(' ')\<close> cuts at every single space and keeps empty pieces:
  \<open>'a '.split(' ')\<close> is \<open>['a', '']\<close>.
\<close>

fun split_on :: "(char \<Rightarrow> bool) \<Rightarrow> string \<Rightarrow> string list" where
  "split_on p [] = [[]]"
| "split_on p (c # cs) =
     (if p c then [] # split_on p cs
      else (case split_on p cs of [] \<Rightarrow> [[c]] | t # ts \<Rightarrow> (c # t) # ts))"

definition split_space :: "string \<Rightarrow> string list" where
  "split_space str = split_on (\<lambda>c. c = CHR '' '') str"

definition is_ws :: "char \<Rightarrow> bool" where
  "is_ws c = (c = CHR 0x09 \<or> c = CHR 0x0A \<or> c = CHR 0x0C \<or> c = CHR 0x0D \<or> c = CHR '' '')"

text \<open>
  \<open>el.classList.add(...tokens)\<close>: the first empty token raises a \<open>SyntaxError\<close>, the first
  token with ASCII whitespace an \<open>InvalidCharacterError\<close>, before anything is changed;
  otherwise the tokens not yet present are appended to the class attribute.
\<close>

fun check_tokens :: "string list \<Rightarrow> error option" where
  "check_tokens [] = None"
| "check_tokens (t # ts) =
     (if t = [] then Some SyntaxError
      else if list_ex is_ws t then Some InvalidCharacterError
      else check_tokens ts)"

definition add_token :: "string list \<Rightarrow> string \<Rightarrow> string list" where
  "add_token ts t = (if t \<in> set ts then ts else ts @ [t])"

definition class_tokens :: "element \<Rightarrow> string list" where
  "class_tokens e =
     foldl add_token []
       (filter (\<lambda>t. t \<noteq> []) (split_on is_ws (case attrs e ''class'' of None \<Rightarrow> [] | Some v \<Rightarrow> v)))"

fun join_space :: "string list \<Rightarrow> string" where
  "join_space [] = []"
| "join_space [t] = t"
| "join_space (t # ts) = t @ '' '' @ join_space ts"

definition classList_add :: "node \<Rightarrow> string list \<Rightarrow> state \<Rightarrow> state outcome" where
  "classList_add n toks s =
     (case check_tokens toks of
        Some err \<Rightarrow> Throws err s
      | None \<Rightarrow>
          Returns (update_element n
            (\<lambda>e. e\<lparr>attrs := (attrs e)(''class'' \<mapsto> join_space (foldl add_token (class_tokens e) toks))\<rparr>) s))"

text \<open>
  \<open>el.style = text\<close> replaces the whole inline style, which is the \<open>style\<close> attribute (the
  browser's re-serialisation of the declarations is not modelled: the text is kept).
\<close>

definition set_style :: "node \<Rightarrow> string \<Rightarrow> state \<Rightarrow> state" where
  "set_style n v = set_attr n ''style'' v"

text \<open>
  \<open>c.after(i)\<close>: nothing when \<open>c\<close> has no parent; otherwise \<open>i\<close> (taken out of the tree
  first, should it be in it) becomes the next sibling of \<open>c\<close>.
\<close>

fun insert_after :: "node \<Rightarrow> node \<Rightarrow> node list \<Rightarrow> node list" where
  "insert_after c i [] = []"
| "insert_after c i (x # xs) = (if x = c then x # i # xs else x # insert_after c i xs)"

definition place_after :: "node \<Rightarrow> node \<Rightarrow> node list \<Rightarrow> node list" where
  "place_after c i xs = (if c \<in> set xs then insert_after c i (removeAll i xs) else xs)"

definition after :: "node \<Rightarrow> node \<Rightarrow> state \<Rightarrow> state" where
  "after c i s = s\<lparr>doc := place_after c i (doc s)\<rparr>"

text \<open>
  \<open>el.toDataURL(type, quality)\<close> exists on canvas elements only; on any other element the
  call is a \<open>TypeError\<close> (the property is \<open>undefined\<close>). Tainted canvases are left out.
\<close>

definition toDataURL :: "host \<Rightarrow> element \<Rightarrow> string \<Rightarrow> rat \<Rightarrow> error + string" where
  "toDataURL h e ft q =
     (if kind e = Canvas then Inr (encode h (pixels e) ft q) else Inl TypeError)"

subsection \<open>The closures of the hook\<close>

definition IMG_STYLE :: string where
  "IMG_STYLE = ''position: absolute; top: 0; left: 0; z-index: 0;''"

definition CANVAS_STYLE :: string where
  "CANVAS_STYLE = ''position: absolute; top: 0; left: 0; z-index: 1;''"

definition new_Image :: element where
  "new_Image = \<lparr> kind = Image, attrs = Map.empty, pixels = [] \<rparr>"

definition createImg :: "config \<Rightarrow> state \<Rightarrow> state outcome" where
  "createImg cfg s =
     (let i = fresh s;
          s1 = s\<lparr> store := (store s)(i \<mapsto> new_Image), fresh := Suc i,
                  created := created s @ [i], imgRef := Some i \<rparr>
      in and_then
           (if imgClassname cfg \<noteq> [] then classList_add i (split_space (imgClassname cfg)) s1
            else Returns s1)
           (\<lambda>s2. Returns (set_style i IMG_STYLE s2)))"

fun setAttributes :: "host \<Rightarrow> node \<Rightarrow> (string \<times> string) list \<Rightarrow> state \<Rightarrow> state outcome" where
  "setAttributes h c [] s = Returns s"
| "setAttributes h c ((k, v) # kvs) s = and_then (setAttribute h c k v s) (setAttributes h c kvs)"

text \<open>
  \<open>updateCanvas\<close> reads \<open>canvasRef.current\<close> and, after \<open>createImg\<close>, \<open>imgRef.current\<close>. The
  source calls it with the handle set, and \<open>createImg\<close> sets the image ref first thing, so
  the two \<open>None\<close> branches below are never taken; they stand for the property access on
  \<open>undefined\<close>.
\<close>

definition updateCanvas :: "host \<Rightarrow> config \<Rightarrow> state \<Rightarrow> state outcome" where
  "updateCanvas h cfg s =
     (case canvasRef s of
        None \<Rightarrow> Throws TypeError s
      | Some c \<Rightarrow>
          and_then (setAttributes h c (canvasAttributes cfg) s) (\<lambda>s1.
          and_then
            (if canvasClassname cfg \<noteq> [] then classList_add c (split_space (canvasClassname cfg)) s1
             else Returns s1) (\<lambda>s2.
          and_then (createImg cfg (set_style c CANVAS_STYLE s2)) (\<lambda>s3.
            (case imgRef s3 of
               None \<Rightarrow> Throws TypeError s3
             | Some i \<Rightarrow> Returns (after c i s3))))))"

text \<open>\<open>createImgSrc\<close> only queues its callback; \<open>frame_callback\<close> is the callback.\<close>

definition createImgSrc :: "state \<Rightarrow> state" where
  "createImgSrc s = s\<lparr>frames := Suc (frames s)\<rparr>"

definition frame_callback :: "host \<Rightarrow> config \<Rightarrow> state \<Rightarrow> state outcome" where
  "frame_callback h cfg s =
     (case canvasRef s of
        None \<Rightarrow> Returns s
      | Some c \<Rightarrow>
          (case imgRef s of
             None \<Rightarrow> Returns s
           | Some i \<Rightarrow>
               (case store s c of
                  None \<Rightarrow> Throws TypeError s
                | Some e \<Rightarrow>
                    (case toDataURL h e (fileType cfg) (quality cfg) of
                       Inl err \<Rightarrow> Throws err s
                     | Inr dataUrl \<Rightarrow>
                         Returns (set_attr i ''src'' dataUrl (s\<lparr>reads := Suc (reads s)\<rparr>))))))"

definition setTimeout :: "state \<Rightarrow> state" where
  "setTimeout s =
     s\<lparr> timeouts := timeouts s @ [next_timeout s],
        reselectTimeout := Some (next_timeout s),
        next_timeout := Suc (next_timeout s) \<rparr>"

definition setCanvas :: "host \<Rightarrow> config \<Rightarrow> state \<Rightarrow> state outcome" where
  "setCanvas h cfg s =
     and_then
       (case canvas cfg of
          Selector sel \<Rightarrow>
            (if valid_selector h sel then Returns (s\<lparr>canvasRef := querySelector h sel s\<rparr>)
             else Throws SyntaxError s)
        | Ref \<Rightarrow>
            (case ref_target s of
               None \<Rightarrow> Returns s
             | Some n \<Rightarrow> if is_canvas s n then Returns (s\<lparr>canvasRef := Some n\<rparr>) else Returns s)
        | Element n \<Rightarrow> if is_canvas s n then Returns (s\<lparr>canvasRef := Some n\<rparr>) else Returns s
        | Unrecognised \<Rightarrow> Returns s)
       (\<lambda>s1. if canvasRef s1 \<noteq> None then updateCanvas h cfg s1 else Returns (setTimeout s1))"

text \<open>The effect's cleanup: \<open>if (reselectTimeout) clearTimeout(reselectTimeout)\<close>.\<close>

definition clearTimeout :: "nat \<Rightarrow> state \<Rightarrow> state" where
  "clearTimeout t s = s\<lparr>timeouts := removeAll t (timeouts s)\<rparr>"

definition cleanup :: "state \<Rightarrow> state" where
  "cleanup s =
     (case reselectTimeout s of
        None \<Rightarrow> s
      | Some t \<Rightarrow> if t \<noteq> 0 then clearTimeout t s else s)"

text \<open>
  Modelled from the spec: \<open>useInterval\<close> of the package \<open>usehooks-ts\<close>, which is imported
  by the source and is not under \<open>src/\<close>. The spec: in periodic mode "a recurring timer at
  the configured interval directly invokes SnapshotCapturer's trigger", in manual mode
  "no timer is armed", and deactivation "cancels ... any periodic timer".
\<close>

definition useInterval_arms :: "interval \<Rightarrow> bool" where
  "useInterval_arms iv = (case iv of Ms d \<Rightarrow> True | _ \<Rightarrow> False)"

text \<open>
  The value the hook returns:
  \<open>interval === null || interval === false ? createImgSrc : null\<close>. Calling \<open>null\<close> is a
  \<open>TypeError\<close> in the caller.
\<close>

datatype returned = Fn_createImgSrc | JsNull

definition useCanvasImage_return :: "config \<Rightarrow> returned" where
  "useCanvasImage_return cfg =
     (if interval cfg = IntervalNull \<or> interval cfg = IntervalFalse then Fn_createImgSrc else JsNull)"

fun invoke :: "returned \<Rightarrow> state \<Rightarrow> state outcome" where
  "invoke Fn_createImgSrc s = Returns (createImgSrc s)"
| "invoke JsNull s = Throws TypeError s"

subsection \<open>Events\<close>

text \<open>
  \<open>Activate\<close> is the mount of the component: the effect runs \<open>setCanvas\<close> and \<open>useInterval\<close>
  arms its timer. \<open>Invoke\<close> is the caller calling the value the hook returned. \<open>Timeout\<close>
  is the pending retry firing, \<open>Tick\<close> the interval timer firing, \<open>FrameCallback\<close> the
  browser running one queued animation-frame callback, \<open>Deactivate\<close> the unmount. The
  environment can add an element to the document and set the caller's ref.
\<close>

datatype event =
    Activate | Invoke | Timeout | Tick | FrameCallback | Deactivate
  | EnvAppend element | EnvSetRef "node option"

definition activate :: "host \<Rightarrow> config \<Rightarrow> state \<Rightarrow> state outcome" where
  "activate h cfg s =
     (case setCanvas h cfg (s\<lparr>phase := Mounted\<rparr>) of
        Returns s1 \<Rightarrow> Returns (s1\<lparr>interval_armed := useInterval_arms (interval cfg)\<rparr>)
      | Throws err s1 \<Rightarrow> Throws err (s1\<lparr>interval_armed := useInterval_arms (interval cfg)\<rparr>))"

definition deactivate :: "state \<Rightarrow> state" where
  "deactivate s = (cleanup s)\<lparr>interval_armed := False, phase := TornDown\<rparr>"

definition append_element :: "element \<Rightarrow> state \<Rightarrow> state" where
  "append_element e s =
     s\<lparr> store := (store s)(fresh s \<mapsto> e), doc := doc s @ [fresh s], fresh := Suc (fresh s) \<rparr>"

fun step :: "host \<Rightarrow> config \<Rightarrow> event \<Rightarrow> state \<Rightarrow> state outcome" where
  "step h cfg Activate s = (if phase s = Unmounted then activate h cfg s else Returns s)"
| "step h cfg Invoke s =
     (if phase s = Unmounted then Returns s else invoke (useCanvasImage_return cfg) s)"
| "step h cfg Timeout s =
     (case timeouts s of [] \<Rightarrow> Returns s | t # ts \<Rightarrow> setCanvas h cfg (s\<lparr>timeouts := ts\<rparr>))"
| "step h cfg Tick s = (if interval_armed s then Returns (createImgSrc s) else Returns s)"
| "step h cfg FrameCallback s =
     (if frames s = 0 then Returns s else frame_callback h cfg (s\<lparr>frames := frames s - 1\<rparr>))"
| "step h cfg Deactivate s = (if phase s = Mounted then Returns (deactivate s) else Returns s)"
| "step h cfg (EnvAppend e) s = Returns (append_element e s)"
| "step h cfg (EnvSetRef r) s = Returns (s\<lparr>ref_target := r\<rparr>)"

text \<open>
  An exception in one callback does not stop the host: the next event runs in the state
  the failed callback left.
\<close>

definition run :: "host \<Rightarrow> config \<Rightarrow> event list \<Rightarrow> state \<Rightarrow> state" where
  "run h cfg es s = foldl (\<lambda>s e. state_of (step h cfg e s)) s es"

subsection \<open>Auxiliary notions for the proofs\<close>

text \<open>
  \<open>ctl\<close> collects the fields no DOM operation touches; \<open>edits s s'\<close> says that \<open>s'\<close> differs
  from \<open>s\<close> in the contents of elements only. \<open>consistent\<close> is the invariant of the states
  the hook can reach.
\<close>

definition ctl :: "state \<Rightarrow> node option \<times> node option \<times> nat option \<times> nat list \<times> nat \<times> bool \<times> nat \<times> nat \<times> phase" where
  "ctl s = (ref_target s, canvasRef s, reselectTimeout s, timeouts s, next_timeout s,
            interval_armed s, frames s, reads s, phase s)"

definition edits :: "state \<Rightarrow> state \<Rightarrow> bool" where
  "edits s s' \<longleftrightarrow>
     ctl s' = ctl s \<and> doc s' = doc s \<and> fresh s' = fresh s \<and> imgRef s' = imgRef s \<and>
     created s' = created s \<and> dom (store s') = dom (store s)"

definition consistent :: "config \<Rightarrow> state \<Rightarrow> bool" where
  "consistent cfg s \<longleftrightarrow>
     created s = (case imgRef s of None \<Rightarrow> [] | Some i \<Rightarrow> [i]) \<and>
     (canvasRef s = None \<longrightarrow> imgRef s = None) \<and>
     (canvasRef s \<noteq> None \<longrightarrow> timeouts s = []) \<and>
     (timeouts s = [] \<or> (\<exists>t. timeouts s = [t] \<and> reselectTimeout s = Some t \<and> 0 < t)) \<and>
     0 < next_timeout s \<and>
     (\<forall>n \<in> dom (store s). n < fresh s) \<and>
     (\<forall>c. canvasRef s = Some c \<longrightarrow> c \<in> dom (store s)) \<and>
     (phase s = Unmounted \<longrightarrow>
        canvasRef s = None \<and> timeouts s = [] \<and> \<not> interval_armed s \<and> frames s = 0 \<and> reads s = 0) \<and>
     (phase s = TornDown \<longrightarrow> timeouts s = [] \<and> \<not> interval_armed s) \<and>
     (interval_armed s \<longrightarrow> useInterval_arms (interval cfg)) \<and>
     (0 < reads s \<longrightarrow> canvasRef s \<noteq> None \<and> imgRef s \<noteq> None)"

text \<open>
  The two call sites of \<open>createImgSrc\<close>: the function the hook returned, invoked by the
  caller, and the timer of \<open>useInterval\<close>.
\<close>

definition triggers :: "config \<Rightarrow> state \<Rightarrow> event \<Rightarrow> bool" where
  "triggers cfg s e =
     (case e of
        Invoke \<Rightarrow> phase s \<noteq> Unmounted \<and> useCanvasImage_return cfg = Fn_createImgSrc
      | Tick \<Rightarrow> interval_armed s
      | _ \<Rightarrow> False)"

text \<open>Both refs are set, the handle is a canvas with bitmap \<open>px\<close>, and the image is in the store.\<close>

definition capturable :: "state \<Rightarrow> node \<Rightarrow> node \<Rightarrow> string \<Rightarrow> bool" where
  "capturable s c i px \<longleftrightarrow>
     canvasRef s = Some c \<and> imgRef s = Some i \<and> store s i \<noteq> None \<and>
     (\<exists>el. store s c = Some el \<and> kind el = Canvas \<and> pixels el = px)"

definition attr_of :: "state \<Rightarrow> node \<Rightarrow> string \<Rightarrow> string option" where
  "attr_of s n k = (case store s n of None \<Rightarrow> None | Some e \<Rightarrow> attrs e k)"

fun is_env :: "event \<Rightarrow> bool" where
  "is_env (EnvAppend e) = True"
| "is_env (EnvSetRef r) = True"
| "is_env ev = False"

text \<open>The state of an activation that was torn down before the surface was resolved.\<close>

definition quiet :: "state \<Rightarrow> bool" where
  "quiet s \<longleftrightarrow>
     phase s = TornDown \<and> canvasRef s = None \<and> imgRef s = None \<and> created s = [] \<and>
     timeouts s = [] \<and> \<not> interval_armed s"

subsection \<open>A concrete host and concrete arguments\<close>

text \<open>
  A small host for evaluating the hook on concrete inputs: a selector \<open>#name\<close> matches the
  elements whose \<open>id\<close> is \<open>name\<close>, and the encoder prefixes the bitmap with the MIME type.
\<close>

definition example_host :: host where
  "example_host =
     \<lparr> matches = (\<lambda>sel e. case sel of [] \<Rightarrow> False
                    | c # name \<Rightarrow> c = CHR ''#'' \<and> attrs e ''id'' = Some name),
       valid_selector = (\<lambda>sel. sel \<noteq> []),
       valid_name = (\<lambda>k. k \<noteq> [] \<and> \<not> list_ex is_ws k),
       encode = (\<lambda>px ft q. ''data:'' @ ft @ '','' @ px) \<rparr>"

definition element_with_id :: "kind \<Rightarrow> string \<Rightarrow> element" where
  "element_with_id k name = \<lparr> kind = k, attrs = [''id'' \<mapsto> name], pixels = ''px'' \<rparr>"

definition example_config :: "reference \<Rightarrow> interval \<Rightarrow> config" where
  "example_config r iv =
     \<lparr> canvas = r, imgClassname = [], canvasClassname = [], canvasAttributes = [],
       fileType = ''image/jpeg'', quality = 7 / 10, interval = iv \<rparr>"

definition manual_config :: config where
  "manual_config = example_config (Selector ''#c'') IntervalNull"

definition periodic_config :: config where
  "periodic_config = example_config (Selector ''#c'') (Ms 100)"

definition mixed_page :: "element list" where
  "mixed_page =
     [element_with_id Other ''x'', element_with_id Canvas ''c'', element_with_id Other ''y'']"

text \<open>A canvas that has an inline style already, and arguments that try to set one.\<close>

definition styled_canvas :: element where
  "styled_canvas =
     \<lparr> kind = Canvas, attrs = [''id'' \<mapsto> ''c'', ''style'' \<mapsto> ''border: 1px solid''],
       pixels = ''px'' \<rparr>"

definition styled_config :: config where
  "styled_config =
     \<lparr> canvas = Selector ''#c'', imgClassname = ''mirror'', canvasClassname = ''fs-exclude'',
       canvasAttributes = [(''style'', ''z-index: 9''), (''data-private'', ''true'')],
       fileType = ''image/jpeg'', quality = 7 / 10, interval = IntervalNull \<rparr>"

section \<open>Properties\<close>

subsection \<open>Evaluation and frame lemmas\<close>

lemmas evaluate =
  example_host_def element_with_id_def example_config_def manual_config_def
  periodic_config_def mixed_page_def styled_canvas_def styled_config_def init_def run_def
  activate_def setCanvas_def updateCanvas_def createImg_def querySelector_def is_canvas_def
  set_style_def set_attr_def update_element_def after_def place_after_def setTimeout_def
  useInterval_arms_def useCanvasImage_return_def createImgSrc_def frame_callback_def
  toDataURL_def deactivate_def cleanup_def clearTimeout_def new_Image_def classList_add_def
  split_space_def is_ws_def class_tokens_def add_token_def append_element_def
  setAttribute_def attr_of_def Let_def

lemma run_Nil: "run h cfg [] s = s"
  by (simp add: run_def)

lemma run_Cons: "run h cfg (e # es) s = run h cfg es (state_of (step h cfg e s))"
  by (simp add: run_def)

lemma run_append: "run h cfg (es @ es') s = run h cfg es' (run h cfg es s)"
  by (simp add: run_def)


lemma edits_refl: "edits s s"
  by (simp add: edits_def)

lemma edits_trans: "edits s s' \<Longrightarrow> edits s' s'' \<Longrightarrow> edits s s''"
  by (simp add: edits_def)

lemma edits_update_element: "edits s (update_element n f s)"
  by (auto simp: edits_def ctl_def update_element_def split: option.split)

lemma edits_set_attr: "edits s (set_attr n k v s)"
  by (simp add: set_attr_def edits_update_element)

lemma edits_setAttribute: "edits s (state_of (setAttribute h n k v s))"
  by (simp add: setAttribute_def edits_set_attr edits_refl)

lemma state_of_and_then:
  "state_of (and_then r f) = (case r of Returns s \<Rightarrow> state_of (f s) | Throws e s \<Rightarrow> s)"
  by (cases r) simp_all

lemma edits_setAttributes: "edits s (state_of (setAttributes h n kvs s))"
proof (induction kvs arbitrary: s)
  case Nil
  show ?case by (simp add: edits_refl)
next
  case (Cons kv kvs)
  obtain k v where kv: "kv = (k, v)" by (cases kv)
  show ?case
  proof (cases "setAttribute h n k v s")
    case (Returns s1)
    then have "edits s s1" using edits_setAttribute [of s h n k v] by simp
    then show ?thesis using Returns kv Cons.IH [of s1] by (auto intro: edits_trans)
  next
    case (Throws e s1)
    then have "edits s s1" using edits_setAttribute [of s h n k v] by simp
    then show ?thesis using Throws kv by simp
  qed
qed

lemma edits_classList_add: "edits s (state_of (classList_add n toks s))"
  by (simp add: classList_add_def edits_update_element edits_refl split: option.split)

lemma createImg_shape:
  "fresh (state_of (createImg cfg s)) = Suc (fresh s) \<and>
   created (state_of (createImg cfg s)) = created s @ [fresh s] \<and>
   imgRef (state_of (createImg cfg s)) = Some (fresh s) \<and>
   doc (state_of (createImg cfg s)) = doc s \<and>
   ctl (state_of (createImg cfg s)) = ctl s \<and>
   dom (store (state_of (createImg cfg s))) = insert (fresh s) (dom (store s)) \<and>
   (\<forall>m. m \<noteq> fresh s \<longrightarrow> store (state_of (createImg cfg s)) m = store s m)"
  by (auto simp: createImg_def Let_def classList_add_def set_style_def set_attr_def
      update_element_def ctl_def split: option.split)

lemma updateCanvas_cases:
  assumes c: "canvasRef s = Some c"
  obtains
    (early) e s1 where "updateCanvas h cfg s = Throws e s1" "edits s s1"
  | (late) e s2 where "updateCanvas h cfg s = Throws e (state_of (createImg cfg s2))"
      "edits s s2"
      "\<forall>e. store s c = Some e \<longrightarrow>
         (\<exists>e'. store s2 c = Some e' \<and> attrs e' ''style'' = Some CANVAS_STYLE)"
  | (finished) s2 where
      "updateCanvas h cfg s = Returns (after c (fresh s) (state_of (createImg cfg s2)))"
      "edits s s2" "thrown (createImg cfg s2) = None"
      "\<forall>e. store s c = Some e \<longrightarrow>
         (\<exists>e'. store s2 c = Some e' \<and> attrs e' ''style'' = Some CANVAS_STYLE)"
proof (cases "setAttributes h c (canvasAttributes cfg) s")
  case (Throws e s1)
  have "edits s s1" using edits_setAttributes [of s h c "canvasAttributes cfg"] Throws by simp
  moreover have "updateCanvas h cfg s = Throws e s1"
    using c Throws by (simp add: updateCanvas_def)
  ultimately show ?thesis using early by blast
next
  case r1: (Returns s1)
  have e1: "edits s s1" using edits_setAttributes [of s h c "canvasAttributes cfg"] r1 by simp
  define r2 where "r2 = (if canvasClassname cfg \<noteq> []
    then classList_add c (split_space (canvasClassname cfg)) s1 else Returns s1)"
  have e2: "edits s1 (state_of r2)"
    by (simp add: r2_def edits_classList_add edits_refl)
  have unfold: "updateCanvas h cfg s = and_then r2 (\<lambda>s2.
          and_then (createImg cfg (set_style c CANVAS_STYLE s2)) (\<lambda>s3.
            (case imgRef s3 of None \<Rightarrow> Throws TypeError s3
             | Some i \<Rightarrow> Returns (after c i s3))))"
    using c r1 by (simp add: updateCanvas_def r2_def)
  show ?thesis
  proof (cases r2)
    case (Throws e s2)
    then have "edits s s2" using e1 e2 by (auto intro: edits_trans)
    moreover have "updateCanvas h cfg s = Throws e s2" using unfold Throws by simp
    ultimately show ?thesis using early by blast
  next
    case r2: (Returns s2)
    define s2' where "s2' = set_style c CANVAS_STYLE s2"
    have "edits s2 s2'" by (simp add: s2'_def set_style_def edits_set_attr)
    then have e3: "edits s s2'" using e1 e2 r2 by (auto intro: edits_trans)
    have fr: "fresh s2' = fresh s" using e3 by (simp add: edits_def)
    have st: "\<forall>e. store s c = Some e \<longrightarrow>
         (\<exists>e'. store s2' c = Some e' \<and> attrs e' ''style'' = Some CANVAS_STYLE)"
    proof (intro allI impI)
      fix e assume "store s c = Some e"
      then have "c \<in> dom (store s2)" using e1 e2 r2 by (auto simp: edits_def)
      then obtain e2 where "store s2 c = Some e2" by blast
      then show "\<exists>e'. store s2' c = Some e' \<and> attrs e' ''style'' = Some CANVAS_STYLE"
        by (simp add: s2'_def set_style_def set_attr_def update_element_def)
    qed
    show ?thesis
    proof (cases "createImg cfg s2'")
      case (Throws e s3)
      then have "updateCanvas h cfg s = Throws e (state_of (createImg cfg s2'))"
        using unfold r2 by (simp add: s2'_def)
      then show ?thesis using late e3 st by blast
    next
      case r3: (Returns s3)
      have "imgRef s3 = Some (fresh s)"
        using createImg_shape [of cfg s2'] r3 fr by simp
      then have "updateCanvas h cfg s = Returns (after c (fresh s) (state_of (createImg cfg s2')))"
        using unfold r2 r3 by (simp add: s2'_def)
      moreover have "thrown (createImg cfg s2') = None" using r3 by simp
      ultimately show ?thesis using finished e3 st by blast
    qed
  qed
qed

lemma consistent_init: "consistent cfg (init a d)"
  by (auto simp: consistent_def init_def split: if_splits)

lemma consistent_edits: "consistent cfg s \<Longrightarrow> edits s s' \<Longrightarrow> consistent cfg s'"
  by (simp add: consistent_def edits_def ctl_def)

lemma ctl_after: "ctl (after c i s) = ctl s"
  by (simp add: after_def ctl_def)

lemma after_fields:
  "store (after c i s) = store s" "fresh (after c i s) = fresh s"
  "imgRef (after c i s) = imgRef s" "created (after c i s) = created s"
  by (simp_all add: after_def)

lemma consistent_createImg:
  assumes "consistent cfg s" "edits s s2" "canvasRef s = Some c" "imgRef s = None"
  shows "consistent cfg (after c j (state_of (createImg cfg s2)))"
proof -
  let ?s3 = "state_of (createImg cfg s2)"
  have sh: "fresh ?s3 = Suc (fresh s)" "created ?s3 = created s @ [fresh s]"
    "imgRef ?s3 = Some (fresh s)" "ctl ?s3 = ctl s"
    "dom (store ?s3) = insert (fresh s) (dom (store s))"
    using createImg_shape [of cfg s2] assms(2) by (simp_all add: edits_def)
  have "created s = []" using assms(1,4) by (simp add: consistent_def)
  then show ?thesis
    using assms(1,3) sh
    by (auto simp: consistent_def ctl_def after_fields ctl_after [unfolded ctl_def] less_Suc_eq after_def)
qed

lemma consistent_updateCanvas:
  assumes "consistent cfg s" "canvasRef s = Some c" "imgRef s = None"
  shows "consistent cfg (state_of (updateCanvas h cfg s))"
proof (rule updateCanvas_cases [OF assms(2), of h cfg])
  fix e s1
  assume "updateCanvas h cfg s = Throws e s1" "edits s s1"
  then show ?thesis using assms(1) by (simp add: consistent_edits)
next
  fix e s2
  assume late: "updateCanvas h cfg s = Throws e (state_of (createImg cfg s2))" "edits s s2"
  have "consistent cfg (after c (fresh s) (state_of (createImg cfg s2)))"
    using consistent_createImg [OF assms(1) late(2) assms(2,3)] .
  then have "consistent cfg (state_of (createImg cfg s2))"
    by (simp add: consistent_def after_def split: if_splits)
  then show ?thesis using late by simp
next
  fix s2
  assume "updateCanvas h cfg s = Returns (after c (fresh s) (state_of (createImg cfg s2)))"
    "edits s s2"
  then show ?thesis using consistent_createImg [OF assms(1) _ assms(2,3)] by simp
qed

lemma setCanvas_cases:
  obtains
    (resolved) c where "c \<in> dom (store s)"
      "setCanvas h cfg s = updateCanvas h cfg (s\<lparr>canvasRef := Some c\<rparr>)"
  | (unresolved) "canvasRef s \<noteq> None \<or>
      setCanvas h cfg s = Returns (setTimeout (s\<lparr>canvasRef := None\<rparr>))"
  | (invalid) "setCanvas h cfg s = Throws SyntaxError s"
  | (stale) "canvasRef s \<noteq> None"
proof (cases "canvasRef s")
  case (Some c0)
  then show ?thesis using stale by simp
next
  case None
  show ?thesis
  proof (cases "canvas cfg")
    case (Selector sel)
    show ?thesis
    proof (cases "valid_selector h sel")
      case False
      then show ?thesis using invalid Selector by (simp add: setCanvas_def)
    next
      case True
      show ?thesis
      proof (cases "querySelector h sel s")
        case None
        then show ?thesis using unresolved Selector True by (simp add: setCanvas_def)
      next
        case (Some c)
        then have "c \<in> dom (store s)"
          by (auto simp: querySelector_def find_Some_iff split: option.splits)
        then show ?thesis using resolved Some Selector True by (simp add: setCanvas_def)
      qed
    qed
  next
    case Ref
    have same: "s\<lparr>canvasRef := None\<rparr> = s" using None by (cases s) simp
    show ?thesis
    proof (cases "ref_target s")
      case None
      then show ?thesis using unresolved Ref \<open>canvasRef s = None\<close> same
        by (simp add: setCanvas_def)
    next
      case (Some n)
      show ?thesis
      proof (cases "is_canvas s n")
        case True
        then have "n \<in> dom (store s)" by (auto simp: is_canvas_def split: option.splits)
        then show ?thesis using resolved Ref Some True by (simp add: setCanvas_def)
      next
        case False
        then show ?thesis using unresolved Ref Some \<open>canvasRef s = None\<close> same
          by (simp add: setCanvas_def)
      qed
    qed
  next
    case (Element n)
    have same: "s\<lparr>canvasRef := None\<rparr> = s" using None by (cases s) simp
    show ?thesis
    proof (cases "is_canvas s n")
      case True
      then have "n \<in> dom (store s)" by (auto simp: is_canvas_def split: option.splits)
      then show ?thesis using resolved Element True by (simp add: setCanvas_def)
    next
      case False
      then show ?thesis using unresolved Element None same by (simp add: setCanvas_def)
    qed
  next
    case Unrecognised
    have same: "s\<lparr>canvasRef := None\<rparr> = s" using None by (cases s) simp
    show ?thesis using unresolved Unrecognised None same by (simp add: setCanvas_def)
  qed
qed

lemma consistent_setCanvas:
  assumes "consistent cfg s" "canvasRef s = None" "timeouts s = []" "phase s = Mounted"
  shows "consistent cfg (state_of (setCanvas h cfg s))"
proof (rule setCanvas_cases [of s h cfg])
  fix c
  assume c: "c \<in> dom (store s)"
    and eq: "setCanvas h cfg s = updateCanvas h cfg (s\<lparr>canvasRef := Some c\<rparr>)"
  have "consistent cfg (s\<lparr>canvasRef := Some c\<rparr>)"
    using assms c by (auto simp: consistent_def)
  moreover have "imgRef (s\<lparr>canvasRef := Some c\<rparr>) = None"
    using assms by (simp add: consistent_def)
  ultimately show ?thesis
    using eq consistent_updateCanvas [of cfg "s\<lparr>canvasRef := Some c\<rparr>" c h] by simp
next
  assume "canvasRef s \<noteq> None \<or> setCanvas h cfg s = Returns (setTimeout (s\<lparr>canvasRef := None\<rparr>))"
  then have "setCanvas h cfg s = Returns (setTimeout (s\<lparr>canvasRef := None\<rparr>))"
    using assms(2) by simp
  then show ?thesis using assms by (auto simp: consistent_def setTimeout_def)
next
  assume "setCanvas h cfg s = Throws SyntaxError s"
  then show ?thesis using assms(1) by simp
next
  assume "canvasRef s \<noteq> None"
  then show ?thesis using assms(2) by simp
qed

lemma consistent_frame_callback:
  assumes "consistent cfg s"
  shows "consistent cfg (state_of (frame_callback h cfg s))"
proof -
  have "frame_callback h cfg s = Returns s \<or> (\<exists>e. frame_callback h cfg s = Throws e s) \<or>
    (\<exists>c i url. canvasRef s = Some c \<and> imgRef s = Some i \<and>
       frame_callback h cfg s = Returns (set_attr i ''src'' url (s\<lparr>reads := Suc (reads s)\<rparr>)))"
    by (auto simp: frame_callback_def split: option.split sum.split)
  moreover have "consistent cfg (set_attr i ''src'' url (s\<lparr>reads := Suc (reads s)\<rparr>))"
    if "canvasRef s = Some c" "imgRef s = Some i" for c i url
  proof -
    have "consistent cfg (s\<lparr>reads := Suc (reads s)\<rparr>)"
      using assms that by (auto simp: consistent_def)
    then show ?thesis using consistent_edits edits_set_attr by blast
  qed
  ultimately show ?thesis using assms by auto
qed

lemma updateCanvas_ctl:
  assumes "canvasRef s = Some c"
  shows "ctl (state_of (updateCanvas h cfg s)) = ctl s"
proof (rule updateCanvas_cases [OF assms, of h cfg])
  fix e s1
  assume "updateCanvas h cfg s = Throws e s1" "edits s s1"
  then show ?thesis by (simp add: edits_def)
next
  fix e s2
  assume "updateCanvas h cfg s = Throws e (state_of (createImg cfg s2))" "edits s s2"
  then show ?thesis using createImg_shape [of cfg s2] by (simp add: edits_def)
next
  fix s2
  assume "updateCanvas h cfg s = Returns (after c (fresh s) (state_of (createImg cfg s2)))"
    "edits s s2"
  then show ?thesis using createImg_shape [of cfg s2] by (simp add: edits_def ctl_after)
qed

lemma setCanvas_keeps:
  "phase (state_of (setCanvas h cfg s)) = phase s \<and>
   interval_armed (state_of (setCanvas h cfg s)) = interval_armed s \<and>
   frames (state_of (setCanvas h cfg s)) = frames s \<and>
   reads (state_of (setCanvas h cfg s)) = reads s \<and>
   ref_target (state_of (setCanvas h cfg s)) = ref_target s"
proof (cases "canvasRef s")
  case None
  show ?thesis
  proof (rule setCanvas_cases [of s h cfg])
    fix c
    assume "setCanvas h cfg s = updateCanvas h cfg (s\<lparr>canvasRef := Some c\<rparr>)"
    then show ?thesis
      using updateCanvas_ctl [of "s\<lparr>canvasRef := Some c\<rparr>" c h cfg] by (simp add: ctl_def)
  next
    assume "canvasRef s \<noteq> None \<or> setCanvas h cfg s = Returns (setTimeout (s\<lparr>canvasRef := None\<rparr>))"
    then show ?thesis using None by (auto simp: setTimeout_def)
  next
    assume "setCanvas h cfg s = Throws SyntaxError s"
    then show ?thesis by simp
  next
    assume "canvasRef s \<noteq> None"
    then show ?thesis using None by simp
  qed
next
  case (Some c0)
  have ctl0: "ctl (state_of (updateCanvas h cfg s')) = ctl s'" if "canvasRef s' \<noteq> None" for s'
    using that updateCanvas_ctl by (cases "canvasRef s'") auto
  have upd: "phase (state_of (updateCanvas h cfg s')) = phase s' \<and>
        interval_armed (state_of (updateCanvas h cfg s')) = interval_armed s' \<and>
        frames (state_of (updateCanvas h cfg s')) = frames s' \<and>
        reads (state_of (updateCanvas h cfg s')) = reads s' \<and>
        ref_target (state_of (updateCanvas h cfg s')) = ref_target s'"
    if "canvasRef s' \<noteq> None" for s'
    using ctl0 [OF that] by (simp add: ctl_def)
  show ?thesis
  proof (cases "canvas cfg")
    case (Selector sel)
    then show ?thesis using upd [of "s\<lparr>canvasRef := querySelector h sel s\<rparr>"]
      by (auto simp: setCanvas_def setTimeout_def)
  next
    case Ref
    then show ?thesis using Some upd [of s] upd [of "s\<lparr>canvasRef := ref_target s\<rparr>"]
      by (auto simp: setCanvas_def split: option.split)
  next
    case (Element n)
    then show ?thesis using Some upd [of s] upd [of "s\<lparr>canvasRef := Some n\<rparr>"]
      by (auto simp: setCanvas_def)
  next
    case Unrecognised
    then show ?thesis using Some upd [of s] by (auto simp: setCanvas_def)
  qed
qed

lemma consistent_arm:
  "consistent cfg s \<Longrightarrow> phase s = Mounted \<Longrightarrow>
   consistent cfg (s\<lparr>interval_armed := useInterval_arms (interval cfg)\<rparr>)"
  by (simp add: consistent_def)

lemma consistent_queue:
  "consistent cfg s \<Longrightarrow> phase s \<noteq> Unmounted \<Longrightarrow> consistent cfg (s\<lparr>frames := k\<rparr>)"
  by (simp add: consistent_def)

lemma consistent_createImgSrc:
  "consistent cfg s \<Longrightarrow> phase s \<noteq> Unmounted \<Longrightarrow> consistent cfg (createImgSrc s)"
  by (simp add: createImgSrc_def consistent_queue)

lemma consistent_unqueue:
  "consistent cfg s \<Longrightarrow> consistent cfg (s\<lparr>frames := frames s - 1\<rparr>)"
  by (simp add: consistent_def)

lemma consistent_deactivate:
  "consistent cfg s \<Longrightarrow> phase s = Mounted \<Longrightarrow> consistent cfg (deactivate s)"
proof -
  assume c: "consistent cfg s" and "phase s = Mounted"
  have t: "timeouts (cleanup s) = []"
  proof (cases "timeouts s")
    case Nil
    then show ?thesis
      by (simp add: cleanup_def clearTimeout_def split: option.split)
  next
    case (Cons t ts)
    then have "ts = [] \<and> reselectTimeout s = Some t \<and> 0 < t"
      using c by (simp add: consistent_def)
    then show ?thesis using Cons by (simp add: cleanup_def clearTimeout_def)
  qed
  have "cleanup s = s\<lparr>timeouts := timeouts (cleanup s)\<rparr>"
    by (simp add: cleanup_def clearTimeout_def split: option.split)
  then have "deactivate s = s\<lparr>timeouts := [], interval_armed := False, phase := TornDown\<rparr>"
    using t by (simp add: deactivate_def)
  then show ?thesis using c by (simp add: consistent_def)
qed

lemma consistent_append_element:
  "consistent cfg s \<Longrightarrow> consistent cfg (append_element el s)"
  by (auto simp: consistent_def append_element_def less_Suc_eq)

lemma consistent_set_ref:
  "consistent cfg s \<Longrightarrow> consistent cfg (s\<lparr>ref_target := r\<rparr>)"
  by (simp add: consistent_def)

lemma consistent_pop_timeout:
  assumes "consistent cfg s" "timeouts s = t # ts"
  shows "consistent cfg (s\<lparr>timeouts := ts\<rparr>) \<and> canvasRef s = None \<and> ts = [] \<and> phase s = Mounted"
proof -
  have a: "ts = []" "canvasRef s = None" using assms by (auto simp: consistent_def)
  have b: "phase s = Mounted" using assms by (cases "phase s") (auto simp: consistent_def)
  have "consistent cfg (s\<lparr>timeouts := []\<rparr>)" using assms(1) by (simp add: consistent_def)
  then show ?thesis using a b by simp
qed

lemma consistent_step:
  assumes "consistent cfg s"
  shows "consistent cfg (state_of (step h cfg e s))"
proof (cases e)
  case Activate
  show ?thesis
  proof (cases "phase s = Unmounted")
    case False
    then show ?thesis using assms Activate by simp
  next
    case True
    let ?s0 = "s\<lparr>phase := Mounted\<rparr>"
    have "canvasRef s = None" "timeouts s = []"
      using assms True by (simp_all add: consistent_def)
    moreover have "consistent cfg ?s0" using assms True by (simp add: consistent_def)
    ultimately have "consistent cfg (state_of (setCanvas h cfg ?s0))"
      by (intro consistent_setCanvas) simp_all
    moreover have "phase (state_of (setCanvas h cfg ?s0)) = Mounted"
      using setCanvas_keeps [of h cfg ?s0] by simp
    ultimately have "consistent cfg
        ((state_of (setCanvas h cfg ?s0))\<lparr>interval_armed := useInterval_arms (interval cfg)\<rparr>)"
      by (rule consistent_arm)
    then show ?thesis using Activate True
      by (cases "setCanvas h cfg ?s0") (simp_all add: activate_def)
  qed
next
  case Invoke
  show ?thesis
  proof (cases "phase s = Unmounted")
    case True
    then show ?thesis using assms Invoke by simp
  next
    case False
    then show ?thesis using assms Invoke consistent_createImgSrc [of cfg s]
      by (cases "useCanvasImage_return cfg") simp_all
  qed
next
  case Timeout
  show ?thesis
  proof (cases "timeouts s")
    case Nil
    then show ?thesis using assms Timeout by simp
  next
    case (Cons t ts)
    let ?s0 = "s\<lparr>timeouts := ts\<rparr>"
    have "consistent cfg ?s0 \<and> canvasRef s = None \<and> ts = [] \<and> phase s = Mounted"
      using assms Cons by (rule consistent_pop_timeout)
    then have "consistent cfg ?s0" "canvasRef ?s0 = None" "timeouts ?s0 = []" "phase ?s0 = Mounted"
      by auto
    then have "consistent cfg (state_of (setCanvas h cfg ?s0))"
      by (rule consistent_setCanvas)
    then show ?thesis using Timeout Cons by simp
  qed
next
  case Tick
  show ?thesis
  proof (cases "interval_armed s")
    case False
    then show ?thesis using assms Tick by simp
  next
    case True
    then have "phase s \<noteq> Unmounted" using assms by (auto simp: consistent_def)
    then show ?thesis using assms Tick True consistent_createImgSrc [of cfg s] by simp
  qed
next
  case FrameCallback
  show ?thesis
    using assms FrameCallback consistent_frame_callback [OF consistent_unqueue [OF assms], of h]
    by simp
next
  case Deactivate
  then show ?thesis using assms consistent_deactivate [of cfg s] by simp
next
  case (EnvAppend el)
  then show ?thesis using assms by (simp add: consistent_append_element)
next
  case (EnvSetRef r)
  then show ?thesis using assms by (simp add: consistent_set_ref)
qed

lemma consistent_run: "consistent cfg s \<Longrightarrow> consistent cfg (run h cfg es s)"
  by (induction es arbitrary: s) (simp_all add: run_Nil run_Cons consistent_step)

lemma consistent_reachable: "consistent cfg (run h cfg es (init a d))"
  by (simp add: consistent_run consistent_init)





section \<open>The claims\<close>

subsection \<open>The returned value\<close>

text \<open>
  C1 (the code departs from its documentation). The claim: the hook returns a
  zero-argument trigger in manual mode and a no-op function in periodic mode, and
  invoking the periodic-mode value has no effect. In the source the value returned for
  a numeric interval is \<open>null\<close>, not a function: whatever the other arguments and the
  state, the value is \<open>JsNull\<close> and invoking it raises a \<open>TypeError\<close>.
\<close>

theorem periodic_return_value_is_null:
  "useCanvasImage_return (cfg\<lparr>interval := Ms d\<rparr>) = JsNull \<and>
   invoke (useCanvasImage_return (cfg\<lparr>interval := Ms d\<rparr>)) s = Throws TypeError s"
  by (simp add: useCanvasImage_return_def)

text \<open>
  C5 (the code departs from its documentation). The claim: no sequence of caller actions
  ever surfaces an error to the caller. With \<open>interval: 100\<close> and the canvas present,
  activation followed by one invocation of the returned value raises a \<open>TypeError\<close> in
  the caller.
\<close>

theorem periodic_invoke_raises:
  "thrown (step example_host (example_config (Selector ''#c'') (Ms 100)) Invoke
     (run example_host (example_config (Selector ''#c'') (Ms 100)) [Activate]
        (init [element_with_id Canvas ''c''] []))) = Some TypeError"
  by (simp add: evaluate)

subsection \<open>Resolution\<close>

text \<open>
  C4 (the selector branch misses the check its sibling branches make). The claim:
  resolution succeeds only for an object confirmed to be a canvas element. A selector
  that matches a \<open>div\<close> resolves at once: the handle is the \<open>div\<close>, the mirror image is
  created and placed after it, no retry is pending, and the first capture raises a
  \<open>TypeError\<close> because a \<open>div\<close> has no \<open>toDataURL\<close>. The same \<open>div\<close> passed as an element
  is refused by the \<open>instanceof\<close> test of that branch: the handle stays unset and a retry
  is scheduled.
\<close>

theorem selector_accepts_non_canvas:
  "kind (element_with_id Other ''app'') \<noteq> Canvas \<and>
   canvasRef (run example_host (example_config (Selector ''#app'') IntervalNull) [Activate]
      (init [element_with_id Other ''app''] [])) = Some 0 \<and>
   created (run example_host (example_config (Selector ''#app'') IntervalNull) [Activate]
      (init [element_with_id Other ''app''] [])) = [1] \<and>
   doc (run example_host (example_config (Selector ''#app'') IntervalNull) [Activate]
      (init [element_with_id Other ''app''] [])) = [0, 1] \<and>
   timeouts (run example_host (example_config (Selector ''#app'') IntervalNull) [Activate]
      (init [element_with_id Other ''app''] [])) = [] \<and>
   thrown (step example_host (example_config (Selector ''#app'') IntervalNull) FrameCallback
      (run example_host (example_config (Selector ''#app'') IntervalNull) [Activate, Invoke]
         (init [element_with_id Other ''app''] []))) = Some TypeError \<and>
   canvasRef (run example_host (example_config (Element 0) IntervalNull) [Activate]
      (init [element_with_id Other ''app''] [])) = None \<and>
   created (run example_host (example_config (Element 0) IntervalNull) [Activate]
      (init [element_with_id Other ''app''] [])) = [] \<and>
   timeouts (run example_host (example_config (Element 0) IntervalNull) [Activate]
      (init [element_with_id Other ''app''] [])) = [1]"
  by (simp add: evaluate)

subsection \<open>Captures\<close>

lemma frame_callback_keeps:
  "ctl (state_of (frame_callback h cfg s)) = (ctl s) \<or>
   (canvasRef s \<noteq> None \<and> imgRef s \<noteq> None)"
  by (auto simp: frame_callback_def ctl_def split: option.split sum.split)

lemma reads_step:
  assumes "reads (state_of (step h cfg e s)) \<noteq> reads s"
  shows "e = FrameCallback \<and> canvasRef s \<noteq> None \<and> imgRef s \<noteq> None"
proof (cases e)
  case Activate
  then show ?thesis
    using assms setCanvas_keeps [of h cfg "s\<lparr>phase := Mounted\<rparr>"]
    by (cases "setCanvas h cfg (s\<lparr>phase := Mounted\<rparr>)")
       (auto simp: activate_def split: if_splits)
next
  case Invoke
  then show ?thesis using assms
    by (cases "useCanvasImage_return cfg") (auto simp: createImgSrc_def split: if_splits)
next
  case Timeout
  show ?thesis
  proof (cases "timeouts s")
    case Nil
    then show ?thesis using assms Timeout by simp
  next
    case (Cons t ts)
    then show ?thesis using assms Timeout setCanvas_keeps [of h cfg "s\<lparr>timeouts := ts\<rparr>"]
      by simp
  qed
next
  case Tick
  then show ?thesis using assms by (auto simp: createImgSrc_def split: if_splits)
next
  case FrameCallback
  then show ?thesis
    using assms frame_callback_keeps [of h cfg "s\<lparr>frames := frames s - 1\<rparr>"]
    by (auto simp: ctl_def split: if_splits)
next
  case Deactivate
  then show ?thesis using assms
    by (auto simp: deactivate_def cleanup_def clearTimeout_def split: option.splits if_splits)
next
  case (EnvAppend el)
  then show ?thesis using assms by (simp add: append_element_def)
next
  case (EnvSetRef r)
  then show ?thesis using assms by simp
qed

text \<open>
  C3, as stated, fails: the trigger is not wired up after setup but returned by the very
  call of the hook. With no canvas in the document yet, activation leaves the handle
  unresolved and no image created, and the caller's invocation of the returned function
  succeeds and queues a capture.
\<close>

theorem trigger_available_before_setup:
  "useCanvasImage_return (example_config (Selector ''#c'') IntervalNull) = Fn_createImgSrc \<and>
   canvasRef (run example_host (example_config (Selector ''#c'') IntervalNull) [Activate]
     (init [] [])) = None \<and>
   created (run example_host (example_config (Selector ''#c'') IntervalNull) [Activate]
     (init [] [])) = [] \<and>
   thrown (step example_host (example_config (Selector ''#c'') IntervalNull) Invoke
     (run example_host (example_config (Selector ''#c'') IntervalNull) [Activate]
        (init [] []))) = None \<and>
   frames (run example_host (example_config (Selector ''#c'') IntervalNull) [Activate]
     (init [] [])) = 0 \<and>
   frames (run example_host (example_config (Selector ''#c'') IntervalNull) [Activate, Invoke]
     (init [] [])) = 1"
  by (simp add: evaluate)

text \<open>
  C3, amended. In every state an activation reaches: the mirror image exists only once
  the surface handle is resolved; as long as the handle or the image is missing no
  capture has been read; and a step that reads a capture is a frame callback that found
  both already there, so resolution and image creation happened in earlier steps. The
  trigger itself is available from activation on: whatever the progress of setup, an
  invocation in manual mode returns normally and only queues a frame callback.
\<close>

theorem capture_only_after_setup:
  "(imgRef (run h cfg es (init a d)) \<noteq> None \<longrightarrow> canvasRef (run h cfg es (init a d)) \<noteq> None) \<and>
   (canvasRef (run h cfg es (init a d)) = None \<or> imgRef (run h cfg es (init a d)) = None
      \<longrightarrow> reads (run h cfg es (init a d)) = 0) \<and>
   (reads (state_of (step h cfg e (run h cfg es (init a d)))) \<noteq> reads (run h cfg es (init a d))
      \<longrightarrow> e = FrameCallback \<and> canvasRef (run h cfg es (init a d)) \<noteq> None \<and>
          imgRef (run h cfg es (init a d)) \<noteq> None) \<and>
   (phase (run h cfg es (init a d)) \<noteq> Unmounted \<and>
    useCanvasImage_return cfg = Fn_createImgSrc
      \<longrightarrow> step h cfg Invoke (run h cfg es (init a d)) =
          Returns ((run h cfg es (init a d))\<lparr>frames := Suc (frames (run h cfg es (init a d)))\<rparr>))"
proof -
  let ?s = "run h cfg es (init a d)"
  have c: "consistent cfg ?s" by (rule consistent_reachable)
  have 1: "imgRef ?s \<noteq> None \<longrightarrow> canvasRef ?s \<noteq> None"
    using c by (auto simp: consistent_def)
  have 2: "canvasRef ?s = None \<or> imgRef ?s = None \<longrightarrow> reads ?s = 0"
    using c by (auto simp: consistent_def)
  have 3: "reads (state_of (step h cfg e ?s)) \<noteq> reads ?s
      \<longrightarrow> e = FrameCallback \<and> canvasRef ?s \<noteq> None \<and> imgRef ?s \<noteq> None"
    using reads_step by blast
  have 4: "phase ?s \<noteq> Unmounted \<and> useCanvasImage_return cfg = Fn_createImgSrc
      \<longrightarrow> step h cfg Invoke ?s = Returns (?s\<lparr>frames := Suc (frames ?s)\<rparr>)"
    by (simp add: createImgSrc_def)
  show ?thesis using 1 2 3 4 by blast
qed

theorem capture_only_after_setup_witness:
  "imgRef (run example_host (example_config (Selector ''#c'') IntervalNull)
      [Activate, Invoke] (init [element_with_id Canvas ''c''] [])) \<noteq> None \<and>
   canvasRef (run example_host (example_config (Selector ''#c'') IntervalNull)
      [Activate, Invoke] (init [element_with_id Canvas ''c''] [])) \<noteq> None \<and>
   reads (state_of (step example_host (example_config (Selector ''#c'') IntervalNull) FrameCallback
      (run example_host (example_config (Selector ''#c'') IntervalNull)
         [Activate, Invoke] (init [element_with_id Canvas ''c''] [])))) \<noteq>
   reads (run example_host (example_config (Selector ''#c'') IntervalNull)
      [Activate, Invoke] (init [element_with_id Canvas ''c''] [])) \<and>
   canvasRef (run example_host (example_config (Selector ''#c'') IntervalNull)
      [Activate] (init [] [])) = None \<and>
   reads (run example_host (example_config (Selector ''#c'') IntervalNull)
      [Activate] (init [] [])) = 0 \<and>
   phase (run example_host (example_config (Selector ''#c'') IntervalNull)
      [Activate] (init [] [])) \<noteq> Unmounted \<and>
   useCanvasImage_return (example_config (Selector ''#c'') IntervalNull) = Fn_createImgSrc \<and>
   step example_host (example_config (Selector ''#c'') IntervalNull) Invoke
     (run example_host (example_config (Selector ''#c'') IntervalNull) [Activate] (init [] [])) =
   Returns ((run example_host (example_config (Selector ''#c'') IntervalNull) [Activate]
     (init [] []))\<lparr>frames := Suc (frames (run example_host
        (example_config (Selector ''#c'') IntervalNull) [Activate] (init [] [])))\<rparr>)"
proof -
  let ?cfg = "example_config (Selector ''#c'') IntervalNull"
  let ?t = "run example_host ?cfg [Activate, Invoke] (init [element_with_id Canvas ''c''] [])"
  let ?u = "run example_host ?cfg [Activate] (init [] [])"
  have t1: "imgRef ?t \<noteq> None" by (simp add: evaluate)
  have t2: "reads (state_of (step example_host ?cfg FrameCallback ?t)) \<noteq> reads ?t"
    by (simp add: evaluate)
  have u1: "canvasRef ?u = None" by (simp add: evaluate)
  have u2: "phase ?u \<noteq> Unmounted" by (simp add: evaluate)
  have u3: "useCanvasImage_return ?cfg = Fn_createImgSrc" by (simp add: evaluate)
  note t = capture_only_after_setup [of example_host ?cfg "[Activate, Invoke]"
      "[element_with_id Canvas ''c'']" "[]" FrameCallback]
  note u = capture_only_after_setup [of example_host ?cfg "[Activate]" "[]" "[]" Invoke]
  have t3: "canvasRef ?t \<noteq> None" using t t1 by blast
  have u4: "reads ?u = 0" using u u1 by blast
  have u5: "step example_host ?cfg Invoke ?u = Returns (?u\<lparr>frames := Suc (frames ?u)\<rparr>)"
    using u u2 u3 by blast
  show ?thesis by (intro conjI t1 t3 t2 u1 u4 u2 u3 u5)
qed

subsection \<open>Capture modes\<close>



subsection \<open>Deferred captures\<close>

lemma trigger_step:
  "triggers cfg s e \<Longrightarrow> step h cfg e s = Returns (s\<lparr>frames := Suc (frames s)\<rparr>)"
  by (cases e) (simp_all add: triggers_def createImgSrc_def)

lemma triggers_queue: "triggers cfg s e \<Longrightarrow> triggers cfg (s\<lparr>frames := k\<rparr>) e"
  by (cases e) (simp_all add: triggers_def)

lemma trigger_run:
  "triggers cfg s e \<Longrightarrow> run h cfg (replicate n e) s = s\<lparr>frames := frames s + n\<rparr>"
proof (induction n arbitrary: s)
  case 0
  show ?case by (simp add: run_Nil)
next
  case (Suc n)
  have "triggers cfg (s\<lparr>frames := Suc (frames s)\<rparr>) e"
    using Suc.prems by (rule triggers_queue)
  from Suc.IH [OF this] show ?case
    using Suc.prems by (simp add: run_Cons trigger_step)
qed

lemma capture_step:
  assumes "capturable s c i px" "0 < frames s"
  shows "capturable (state_of (step h cfg FrameCallback s)) c i px \<and>
         thrown (step h cfg FrameCallback s) = None \<and>
         frames (state_of (step h cfg FrameCallback s)) = frames s - 1 \<and>
         reads (state_of (step h cfg FrameCallback s)) = Suc (reads s) \<and>
         attr_of (state_of (step h cfg FrameCallback s)) i ''src'' =
           Some (encode h px (fileType cfg) (quality cfg))"
  using assms
  by (auto simp: capturable_def frame_callback_def toDataURL_def set_attr_def
      update_element_def attr_of_def)

lemma capture_run:
  assumes "capturable s c i px" "n \<le> frames s"
  shows "capturable (run h cfg (replicate n FrameCallback) s) c i px \<and>
         frames (run h cfg (replicate n FrameCallback) s) = frames s - n \<and>
         reads (run h cfg (replicate n FrameCallback) s) = reads s + n \<and>
         (0 < n \<longrightarrow> attr_of (run h cfg (replicate n FrameCallback) s) i ''src'' =
            Some (encode h px (fileType cfg) (quality cfg)))"
  using assms
proof (induction n arbitrary: s)
  case 0
  then show ?case by (simp add: run_Nil)
next
  case (Suc n)
  let ?s1 = "state_of (step h cfg FrameCallback s)"
  have pos: "0 < frames s" using Suc.prems by simp
  note one = capture_step [OF Suc.prems(1) pos, of h cfg]
  have le: "n \<le> frames ?s1" using one Suc.prems by simp
  have cap: "capturable ?s1 c i px" using one by simp
  note rest = Suc.IH [OF cap le]
  show ?case
  proof (cases n)
    case 0
    then show ?thesis using one by (simp add: run_Cons run_Nil)
  next
    case (Suc m)
    then show ?thesis using one rest by (simp add: run_Cons)
  qed
qed

text \<open>
  C7. An invocation of the trigger (by the caller in manual mode, by the timer in
  periodic mode) reads nothing: it returns at once and only queues one frame callback.
  \<open>n\<close> invocations queue \<open>n\<close> callbacks and change nothing else. When the surface handle
  is a canvas and the mirror image exists, each of the \<open>n\<close> callbacks then reads the
  canvas (\<open>n\<close> reads for \<open>n\<close> invocations, none coalesced) and assigns the bitmap, encoded
  with the configured type and quality, to the image's \<open>src\<close>.
\<close>

theorem trigger_defers_each_capture:
  assumes "triggers cfg s e"
    and "canvasRef s = Some c" and "imgRef s = Some i" and "store s i \<noteq> None"
    and "store s c = Some el" and "kind el = Canvas"
  shows "step h cfg e s = Returns (s\<lparr>frames := Suc (frames s)\<rparr>) \<and>
         run h cfg (replicate n e) s = s\<lparr>frames := frames s + n\<rparr> \<and>
         reads (run h cfg (replicate n e @ replicate n FrameCallback) s) = reads s + n \<and>
         frames (run h cfg (replicate n e @ replicate n FrameCallback) s) = frames s \<and>
         (0 < n \<longrightarrow>
            attr_of (run h cfg (replicate n e @ replicate n FrameCallback) s) i ''src'' =
              Some (encode h (pixels el) (fileType cfg) (quality cfg)))"
proof -
  let ?s1 = "s\<lparr>frames := frames s + n\<rparr>"
  have q: "run h cfg (replicate n e) s = ?s1" using assms(1) by (rule trigger_run)
  have "capturable ?s1 c i (pixels el)" using assms by (simp add: capturable_def)
  moreover have "n \<le> frames ?s1" by simp
  ultimately have "capturable (run h cfg (replicate n FrameCallback) ?s1) c i (pixels el) \<and>
         frames (run h cfg (replicate n FrameCallback) ?s1) = frames ?s1 - n \<and>
         reads (run h cfg (replicate n FrameCallback) ?s1) = reads ?s1 + n \<and>
         (0 < n \<longrightarrow> attr_of (run h cfg (replicate n FrameCallback) ?s1) i ''src'' =
            Some (encode h (pixels el) (fileType cfg) (quality cfg)))"
    by (rule capture_run)
  then show ?thesis using q assms(1) by (simp add: run_append trigger_step)
qed

theorem trigger_defers_each_capture_witness:
  "triggers manual_config (run example_host manual_config [Activate]
      (init [element_with_id Canvas ''c''] [])) Invoke \<and>
   canvasRef (run example_host manual_config [Activate]
      (init [element_with_id Canvas ''c''] [])) = Some 0 \<and>
   imgRef (run example_host manual_config [Activate]
      (init [element_with_id Canvas ''c''] [])) = Some 1 \<and>
   reads (run example_host manual_config [Activate]
      (init [element_with_id Canvas ''c''] [])) = 0 \<and>
   reads (run example_host manual_config (replicate 2 Invoke)
      (run example_host manual_config [Activate] (init [element_with_id Canvas ''c''] []))) = 0 \<and>
   frames (run example_host manual_config (replicate 2 Invoke)
      (run example_host manual_config [Activate] (init [element_with_id Canvas ''c''] []))) = 2 \<and>
   reads (run example_host manual_config (replicate 2 Invoke @ replicate 2 FrameCallback)
      (run example_host manual_config [Activate] (init [element_with_id Canvas ''c''] []))) = 2 \<and>
   attr_of (run example_host manual_config (replicate 2 Invoke @ replicate 2 FrameCallback)
      (run example_host manual_config [Activate] (init [element_with_id Canvas ''c''] []))) 1 ''src''
     = Some ''data:image/jpeg,px''"
proof -
  let ?s = "run example_host manual_config [Activate] (init [element_with_id Canvas ''c''] [])"
  let ?el = "the (store ?s 0)"
  have h1: "triggers manual_config ?s Invoke" by (simp add: triggers_def evaluate)
  have h2: "canvasRef ?s = Some 0" by (simp add: evaluate)
  have h3: "imgRef ?s = Some 1" by (simp add: evaluate)
  have h4: "store ?s 1 \<noteq> None" by (simp add: evaluate)
  have h5: "store ?s 0 = Some ?el" by (simp add: evaluate)
  have h6: "kind ?el = Canvas" by (simp add: evaluate)
  have px: "encode example_host (pixels ?el) (fileType manual_config) (quality manual_config)
      = ''data:image/jpeg,px''" by (simp add: evaluate)
  have r0: "reads ?s = 0" and f0: "frames ?s = 0" by (simp_all add: evaluate)
  note T = trigger_defers_each_capture [OF h1 h2 h3 h4 h5 h6, of example_host 2]
  have c1: "reads (run example_host manual_config (replicate 2 Invoke) ?s) = 0"
    using T r0 by simp
  have c2: "frames (run example_host manual_config (replicate 2 Invoke) ?s) = 2"
    using T f0 by simp
  have c3: "reads (run example_host manual_config (replicate 2 Invoke @ replicate 2 FrameCallback) ?s) = 2"
    using T r0 by simp
  have c4: "attr_of (run example_host manual_config (replicate 2 Invoke @ replicate 2 FrameCallback) ?s)
      1 ''src'' = Some ''data:image/jpeg,px''"
    using T px by simp
  show ?thesis by (intro conjI h1 h2 h3 r0 c1 c2 c3 c4)
qed

subsection \<open>The mirror image\<close>

lemma insert_after_adjacent:
  "c \<noteq> i \<Longrightarrow> c \<in> set xs \<Longrightarrow> \<exists>pre post. insert_after c i (removeAll i xs) = pre @ c # i # post"
proof (induction xs)
  case Nil
  then show ?case by simp
next
  case (Cons x xs)
  show ?case
  proof (cases "x = c")
    case True
    then have "insert_after c i (removeAll i (x # xs)) = [] @ c # i # removeAll i xs"
      using Cons.prems by simp
    then show ?thesis by blast
  next
    case False
    then have "c \<in> set xs" using Cons.prems by simp
    then obtain pre post where eq: "insert_after c i (removeAll i xs) = pre @ c # i # post"
      using Cons.IH Cons.prems by blast
    show ?thesis
    proof (cases "x = i")
      case True
      then show ?thesis using eq by auto
    next
      case xi: False
      then have "insert_after c i (removeAll i (x # xs)) = (x # pre) @ c # i # post"
        using False eq by simp
      then show ?thesis by blast
    qed
  qed
qed

lemma createImg_style:
  "thrown (createImg cfg s) = None \<Longrightarrow>
   attr_of (state_of (createImg cfg s)) (fresh s) ''style'' = Some IMG_STYLE"
  by (auto simp: createImg_def Let_def classList_add_def set_style_def set_attr_def
      update_element_def attr_of_def split: option.splits if_splits)

lemma updateCanvas_created:
  assumes c: "canvasRef s = Some c" and st: "c \<in> dom (store s)" and lt: "c < fresh s"
    and cr: "created (state_of (updateCanvas h cfg s)) \<noteq> created s"
  shows "canvasRef (state_of (updateCanvas h cfg s)) = Some c \<and>
         created (state_of (updateCanvas h cfg s)) = created s @ [fresh s] \<and>
         attr_of (state_of (updateCanvas h cfg s)) c ''style'' = Some CANVAS_STYLE \<and>
         (thrown (updateCanvas h cfg s) = None \<longrightarrow>
            doc (state_of (updateCanvas h cfg s)) = place_after c (fresh s) (doc s) \<and>
            attr_of (state_of (updateCanvas h cfg s)) (fresh s) ''style'' = Some IMG_STYLE)"
proof (rule updateCanvas_cases [OF c, of h cfg])
  fix e s1
  assume "updateCanvas h cfg s = Throws e s1" "edits s s1"
  then show ?thesis using cr by (simp add: edits_def)
next
  fix e s2
  assume u: "updateCanvas h cfg s = Throws e (state_of (createImg cfg s2))"
    and ed: "edits s s2"
    and sty: "\<forall>e. store s c = Some e \<longrightarrow>
         (\<exists>e'. store s2 c = Some e' \<and> attrs e' ''style'' = Some CANVAS_STYLE)"
  have f: "fresh s2 = fresh s" "created s2 = created s" "canvasRef s2 = Some c"
    using ed c by (simp_all add: edits_def ctl_def)
  have "attr_of s2 c ''style'' = Some CANVAS_STYLE"
    using sty st by (auto simp: attr_of_def)
  moreover have "store (state_of (createImg cfg s2)) c = store s2 c"
    using createImg_shape [of cfg s2] lt f by simp
  ultimately have "attr_of (state_of (createImg cfg s2)) c ''style'' = Some CANVAS_STYLE"
    by (simp add: attr_of_def)
  then show ?thesis using u f createImg_shape [of cfg s2] by (simp add: ctl_def)
next
  fix s2
  assume u: "updateCanvas h cfg s = Returns (after c (fresh s) (state_of (createImg cfg s2)))"
    and ed: "edits s s2" and ok: "thrown (createImg cfg s2) = None"
    and sty: "\<forall>e. store s c = Some e \<longrightarrow>
         (\<exists>e'. store s2 c = Some e' \<and> attrs e' ''style'' = Some CANVAS_STYLE)"
  let ?s3 = "state_of (createImg cfg s2)"
  have f: "fresh s2 = fresh s" "created s2 = created s" "canvasRef s2 = Some c" "doc s2 = doc s"
    using ed c by (simp_all add: edits_def ctl_def)
  have "attr_of s2 c ''style'' = Some CANVAS_STYLE"
    using sty st by (auto simp: attr_of_def)
  moreover have "store ?s3 c = store s2 c"
    using createImg_shape [of cfg s2] lt f by simp
  ultimately have a: "attr_of ?s3 c ''style'' = Some CANVAS_STYLE"
    by (simp add: attr_of_def)
  have b: "attr_of ?s3 (fresh s) ''style'' = Some IMG_STYLE"
    using createImg_style [OF ok] f by simp
  have d: "doc ?s3 = doc s" "canvasRef ?s3 = Some c" "created ?s3 = created s @ [fresh s]"
    using createImg_shape [of cfg s2] f by (simp_all add: ctl_def)
  show ?thesis using u a b d by (simp add: after_def attr_of_def)
qed

lemma setCanvas_created:
  assumes con: "consistent cfg s" and none: "canvasRef s = None"
    and cr: "created (state_of (setCanvas h cfg s)) \<noteq> created s"
  shows "\<exists>c. canvasRef (state_of (setCanvas h cfg s)) = Some c \<and> c < fresh s \<and>
         created (state_of (setCanvas h cfg s)) = created s @ [fresh s] \<and>
         attr_of (state_of (setCanvas h cfg s)) c ''style'' = Some CANVAS_STYLE \<and>
         (thrown (setCanvas h cfg s) = None \<longrightarrow>
            doc (state_of (setCanvas h cfg s)) = place_after c (fresh s) (doc s) \<and>
            attr_of (state_of (setCanvas h cfg s)) (fresh s) ''style'' = Some IMG_STYLE)"
proof (rule setCanvas_cases [of s h cfg])
  fix c
  assume c: "c \<in> dom (store s)"
    and eq: "setCanvas h cfg s = updateCanvas h cfg (s\<lparr>canvasRef := Some c\<rparr>)"
  let ?s0 = "s\<lparr>canvasRef := Some c\<rparr>"
  have lt: "c < fresh s" using con c by (simp add: consistent_def)
  have "canvasRef ?s0 = Some c" "c \<in> dom (store ?s0)" "c < fresh ?s0"
    "created (state_of (updateCanvas h cfg ?s0)) \<noteq> created ?s0"
    using c lt cr eq by simp_all
  from updateCanvas_created [OF this] show ?thesis
    using eq lt by auto
next
  assume "canvasRef s \<noteq> None \<or> setCanvas h cfg s = Returns (setTimeout (s\<lparr>canvasRef := None\<rparr>))"
  then show ?thesis using none cr by (simp add: setTimeout_def)
next
  assume "setCanvas h cfg s = Throws SyntaxError s"
  then show ?thesis using cr by simp
next
  assume "canvasRef s \<noteq> None"
  then show ?thesis using none by simp
qed

lemma step_created:
  assumes con: "consistent cfg s"
    and cr: "created (state_of (step h cfg e s)) \<noteq> created s"
  shows "\<exists>c. canvasRef (state_of (step h cfg e s)) = Some c \<and> c < fresh s \<and>
         created (state_of (step h cfg e s)) = created s @ [fresh s] \<and>
         attr_of (state_of (step h cfg e s)) c ''style'' = Some CANVAS_STYLE \<and>
         (thrown (step h cfg e s) = None \<longrightarrow>
            doc (state_of (step h cfg e s)) = place_after c (fresh s) (doc s) \<and>
            attr_of (state_of (step h cfg e s)) (fresh s) ''style'' = Some IMG_STYLE)"
proof (cases e)
  case Activate
  show ?thesis
  proof (cases "phase s = Unmounted")
    case False
    then show ?thesis using cr Activate by simp
  next
    case True
    let ?s0 = "s\<lparr>phase := Mounted\<rparr>"
    let ?r = "setCanvas h cfg ?s0"
    have eq: "state_of (step h cfg e s) =
        (state_of ?r)\<lparr>interval_armed := useInterval_arms (interval cfg)\<rparr>"
      "thrown (step h cfg e s) = thrown ?r"
      using Activate True by (cases ?r; simp add: activate_def)+
    have "consistent cfg ?s0" "canvasRef ?s0 = None"
      using con True by (simp_all add: consistent_def)
    moreover have "created (state_of ?r) \<noteq> created ?s0" using cr eq by simp
    ultimately show ?thesis
      using setCanvas_created [of cfg ?s0 h] eq by (simp add: attr_of_def)
  qed
next
  case Invoke
  then show ?thesis using cr
    by (cases "useCanvasImage_return cfg") (auto simp: createImgSrc_def split: if_splits)
next
  case Timeout
  show ?thesis
  proof (cases "timeouts s")
    case Nil
    then show ?thesis using cr Timeout by simp
  next
    case (Cons t ts)
    let ?s0 = "s\<lparr>timeouts := ts\<rparr>"
    have "consistent cfg ?s0 \<and> canvasRef s = None \<and> ts = [] \<and> phase s = Mounted"
      using con Cons by (rule consistent_pop_timeout)
    then have "consistent cfg ?s0" "canvasRef ?s0 = None" by auto
    moreover have "created (state_of (setCanvas h cfg ?s0)) \<noteq> created ?s0"
      using cr Timeout Cons by simp
    ultimately show ?thesis
      using setCanvas_created [of cfg ?s0 h] Timeout Cons by simp
  qed
next
  case Tick
  then show ?thesis using cr by (auto simp: createImgSrc_def split: if_splits)
next
  case FrameCallback
  have "created (state_of (frame_callback h cfg s')) = created s'" for s'
    by (auto simp: frame_callback_def set_attr_def update_element_def
        split: option.split sum.split)
  from this [of "s\<lparr>frames := frames s - 1\<rparr>"] show ?thesis
    using cr FrameCallback by (auto split: if_splits)
next
  case Deactivate
  then show ?thesis using cr
    by (auto simp: deactivate_def cleanup_def clearTimeout_def split: option.splits if_splits)
next
  case (EnvAppend el)
  then show ?thesis using cr by (simp add: append_element_def)
next
  case (EnvSetRef r)
  then show ?thesis using cr by simp
qed

lemma canvasRef_step:
  assumes con: "consistent cfg s" and c: "canvasRef s = Some c"
  shows "canvasRef (state_of (step h cfg e s)) = Some c"
proof (cases e)
  case Activate
  have "phase s \<noteq> Unmounted" using con c by (auto simp: consistent_def)
  then show ?thesis using Activate c by simp
next
  case Invoke
  then show ?thesis using c
    by (cases "useCanvasImage_return cfg") (auto simp: createImgSrc_def)
next
  case Timeout
  have "timeouts s = []" using con c by (simp add: consistent_def)
  then show ?thesis using Timeout c by simp
next
  case Tick
  then show ?thesis using c by (auto simp: createImgSrc_def)
next
  case FrameCallback
  have "canvasRef (state_of (frame_callback h cfg s')) = canvasRef s'" for s'
    by (auto simp: frame_callback_def set_attr_def update_element_def
        split: option.split sum.split)
  from this [of "s\<lparr>frames := frames s - 1\<rparr>"] show ?thesis
    using c FrameCallback by auto
next
  case Deactivate
  then show ?thesis using c
    by (auto simp: deactivate_def cleanup_def clearTimeout_def split: option.splits)
next
  case (EnvAppend el)
  then show ?thesis using c by (simp add: append_element_def)
next
  case (EnvSetRef r)
  then show ?thesis using c by simp
qed

lemma canvasRef_run:
  "consistent cfg s \<Longrightarrow> canvasRef s = Some c \<Longrightarrow> canvasRef (run h cfg es s) = Some c"
  by (induction es arbitrary: s) (simp_all add: run_Nil run_Cons consistent_step canvasRef_step)

text \<open>
  C8, as stated, fails: a canvas passed as an element (or through a ref) need not be in
  the document. For a detached canvas setup completes without an exception and creates
  the image, but \<open>after\<close> does nothing on a node without a parent: the image is not
  inserted anywhere.
\<close>

theorem detached_canvas_image_not_inserted:
  "canvasRef (run example_host (example_config (Element 0) IntervalNull) [Activate]
      (init [] [element_with_id Canvas ''c''])) = Some 0 \<and>
   created (run example_host (example_config (Element 0) IntervalNull) [Activate]
      (init [] [element_with_id Canvas ''c''])) = [1] \<and>
   thrown (step example_host (example_config (Element 0) IntervalNull) Activate
      (init [] [element_with_id Canvas ''c''])) = None \<and>
   doc (run example_host (example_config (Element 0) IntervalNull) [Activate]
      (init [] [element_with_id Canvas ''c''])) = []"
  by (simp add: evaluate)

text \<open>
  C8, amended. In every state an activation reaches at most one image has been created,
  and only with the surface handle resolved; a resolved handle stays the same through
  all later events, so there is never a second one. When a step creates the image and
  completes without an exception, and the surface element is in the document, the image
  is the next sibling of the surface element.
\<close>

theorem mirror_image_unique_and_placed:
  "length (created (run h cfg es (init a d))) \<le> 1 \<and>
   (created (run h cfg es (init a d)) \<noteq> [] \<longrightarrow> canvasRef (run h cfg es (init a d)) \<noteq> None) \<and>
   (\<forall>c. canvasRef (run h cfg es (init a d)) = Some c \<longrightarrow>
        canvasRef (run h cfg es' (run h cfg es (init a d))) = Some c) \<and>
   (\<forall>c i. created (run h cfg es (init a d)) = [] \<and>
          created (state_of (step h cfg e (run h cfg es (init a d)))) = [i] \<and>
          thrown (step h cfg e (run h cfg es (init a d))) = None \<and>
          canvasRef (state_of (step h cfg e (run h cfg es (init a d)))) = Some c \<and>
          c \<in> set (doc (run h cfg es (init a d))) \<longrightarrow>
          (\<exists>pre post. doc (state_of (step h cfg e (run h cfg es (init a d)))) = pre @ c # i # post))"
proof -
  let ?s = "run h cfg es (init a d)"
  let ?s' = "state_of (step h cfg e ?s)"
  have con: "consistent cfg ?s" by (rule consistent_reachable)
  have 1: "length (created ?s) \<le> 1"
    using con by (cases "imgRef ?s") (simp_all add: consistent_def)
  have 2: "created ?s \<noteq> [] \<longrightarrow> canvasRef ?s \<noteq> None"
    using con by (cases "imgRef ?s") (auto simp: consistent_def)
  have 3: "\<forall>c. canvasRef ?s = Some c \<longrightarrow> canvasRef (run h cfg es' ?s) = Some c"
    using con canvasRef_run by blast
  have 4: "\<exists>pre post. doc ?s' = pre @ c # i # post"
    if h: "created ?s = []" "created ?s' = [i]" "thrown (step h cfg e ?s) = None"
      "canvasRef ?s' = Some c" "c \<in> set (doc ?s)" for c i
  proof -
    have "created ?s' \<noteq> created ?s" using h by simp
    from step_created [OF con this] obtain c' where
      c': "canvasRef ?s' = Some c'" "c' < fresh ?s" "created ?s' = created ?s @ [fresh ?s]"
        "doc ?s' = place_after c' (fresh ?s) (doc ?s)"
      using h(3) by blast
    then have "c' = c" "i = fresh ?s" "c \<noteq> i" using h by auto
    then show ?thesis using c' h(5) insert_after_adjacent [of c i "doc ?s"]
      by (simp add: place_after_def)
  qed
  show ?thesis using 1 2 3 4 by blast
qed

theorem mirror_image_unique_and_placed_witness:
  "created (run example_host manual_config [] (init mixed_page [])) = [] \<and>
   created (state_of (step example_host manual_config Activate
      (run example_host manual_config [] (init mixed_page [])))) = [3] \<and>
   thrown (step example_host manual_config Activate
      (run example_host manual_config [] (init mixed_page []))) = None \<and>
   canvasRef (state_of (step example_host manual_config Activate
      (run example_host manual_config [] (init mixed_page [])))) = Some 1 \<and>
   1 \<in> set (doc (run example_host manual_config [] (init mixed_page []))) \<and>
   (\<exists>pre post. doc (state_of (step example_host manual_config Activate
      (run example_host manual_config [] (init mixed_page [])))) = pre @ 1 # 3 # post) \<and>
   doc (state_of (step example_host manual_config Activate
      (run example_host manual_config [] (init mixed_page [])))) = [0, 1, 3, 2] \<and>
   created (run example_host manual_config [Activate] (init mixed_page [])) \<noteq> [] \<and>
   canvasRef (run example_host manual_config [Activate] (init mixed_page [])) \<noteq> None \<and>
   length (created (run example_host manual_config [Activate] (init mixed_page []))) \<le> 1 \<and>
   canvasRef (run example_host manual_config [Invoke, FrameCallback, Deactivate]
      (run example_host manual_config [Activate] (init mixed_page []))) = Some 1"
proof -
  let ?s0 = "run example_host manual_config [] (init mixed_page [])"
  let ?s1 = "run example_host manual_config [Activate] (init mixed_page [])"
  let ?r = "step example_host manual_config Activate ?s0"
  note T0 = mirror_image_unique_and_placed [of example_host manual_config "[]" mixed_page "[]"
      "[]" Activate]
  note T1 = mirror_image_unique_and_placed [of example_host manual_config "[Activate]"
      mixed_page "[]" "[Invoke, FrameCallback, Deactivate]" Activate]
  have a1: "created ?s0 = []" by (simp add: evaluate)
  have a2: "created (state_of ?r) = [3]" by (simp add: evaluate)
  have a3: "thrown ?r = None" by (simp add: evaluate)
  have a4: "canvasRef (state_of ?r) = Some 1" by (simp add: evaluate)
  have a5: "1 \<in> set (doc ?s0)" by (simp add: evaluate)
  have a6: "\<exists>pre post. doc (state_of ?r) = pre @ 1 # 3 # post"
    using T0 a1 a2 a3 a4 a5 by blast
  have a7: "doc (state_of ?r) = [0, 1, 3, 2]" by (simp add: evaluate)
  have b1: "created ?s1 \<noteq> []" by (simp add: evaluate)
  have b2: "canvasRef ?s1 \<noteq> None" using T1 b1 by blast
  have b3: "length (created ?s1) \<le> 1" using T1 by blast
  have b4: "canvasRef ?s1 = Some 1" by (simp add: evaluate)
  have b5: "canvasRef (run example_host manual_config [Invoke, FrameCallback, Deactivate] ?s1)
      = Some 1"
    using T1 b4 by blast
  show ?thesis by (intro conjI a1 a2 a3 a4 a5 a6 a7 b1 b2 b3 b5)
qed



subsection \<open>Deactivation before resolution\<close>

lemma quiet_step:
  assumes "quiet s"
  shows "quiet (state_of (step h cfg e s)) \<and>
         (\<not> is_env e \<longrightarrow> store (state_of (step h cfg e s)) = store s \<and>
            doc (state_of (step h cfg e s)) = doc s \<and> fresh (state_of (step h cfg e s)) = fresh s)"
proof (cases e)
  case Invoke
  then show ?thesis using assms
    by (cases "useCanvasImage_return cfg") (auto simp: quiet_def createImgSrc_def)
next
  case FrameCallback
  then show ?thesis using assms by (auto simp: quiet_def frame_callback_def)
qed (use assms in \<open>auto simp: quiet_def createImgSrc_def append_element_def\<close>)

lemma env_step:
  assumes "is_env e" "store s = store t" "doc s = doc t" "fresh s = fresh t" "quiet s"
  shows "quiet (state_of (step h cfg e s)) \<and>
         store (state_of (step h cfg e s)) = store (state_of (step h cfg e t)) \<and>
         doc (state_of (step h cfg e s)) = doc (state_of (step h cfg e t)) \<and>
         fresh (state_of (step h cfg e s)) = fresh (state_of (step h cfg e t))"
  using assms by (cases e) (auto simp: quiet_def append_element_def)

lemma quiet_run:
  assumes "quiet s" "store s = store t" "doc s = doc t" "fresh s = fresh t"
  shows "quiet (run h cfg es s) \<and>
         store (run h cfg es s) = store (run h cfg (filter is_env es) t) \<and>
         doc (run h cfg es s) = doc (run h cfg (filter is_env es) t) \<and>
         fresh (run h cfg es s) = fresh (run h cfg (filter is_env es) t)"
  using assms
proof (induction es arbitrary: s t)
  case Nil
  then show ?case by (simp add: run_Nil)
next
  case (Cons e es)
  show ?case
  proof (cases "is_env e")
    case True
    note st = env_step [OF True Cons.prems(2,3,4,1), of h cfg]
    from Cons.IH [of "state_of (step h cfg e s)" "state_of (step h cfg e t)"] st True
    show ?thesis by (simp add: run_Cons)
  next
    case False
    note st = quiet_step [OF Cons.prems(1), of h cfg e]
    from Cons.IH [of "state_of (step h cfg e s)" t] st False Cons.prems
    show ?thesis by (simp add: run_Cons)
  qed
qed

lemma quiet_deactivate:
  assumes "consistent cfg s" "phase s = Mounted" "canvasRef s = None"
  shows "quiet (deactivate s) \<and> store (deactivate s) = store s \<and> doc (deactivate s) = doc s \<and>
         fresh (deactivate s) = fresh s"
proof -
  have c: "consistent cfg (deactivate s)" using assms(1,2) by (rule consistent_deactivate)
  have f: "phase (deactivate s) = TornDown" "canvasRef (deactivate s) = canvasRef s"
    "imgRef (deactivate s) = imgRef s" "created (deactivate s) = created s"
    "store (deactivate s) = store s" "doc (deactivate s) = doc s" "fresh (deactivate s) = fresh s"
    by (simp_all add: deactivate_def cleanup_def clearTimeout_def split: option.split)
  have "imgRef s = None" "created s = []" using assms(1,3) by (simp_all add: consistent_def)
  then show ?thesis using c f assms(3) by (simp add: quiet_def consistent_def)
qed

text \<open>
  C9. If the component is unmounted while the surface handle is still unresolved, then
  the pending retry is cancelled, and after any further events (timers, frames, calls of
  the returned value, changes the environment makes to the document) no image has been
  created, no retry and no interval timer is pending, and the document is exactly what
  the environment's own events made of it: the hook changes nothing in it any more.
\<close>

theorem deactivation_before_resolution:
  assumes "phase (run h cfg es (init a d)) = Mounted"
    and "canvasRef (run h cfg es (init a d)) = None"
  shows "timeouts (run h cfg (es @ [Deactivate]) (init a d)) = [] \<and>
         timeouts (run h cfg (es @ Deactivate # es') (init a d)) = [] \<and>
         \<not> interval_armed (run h cfg (es @ Deactivate # es') (init a d)) \<and>
         created (run h cfg (es @ Deactivate # es') (init a d)) = [] \<and>
         imgRef (run h cfg (es @ Deactivate # es') (init a d)) = None \<and>
         store (run h cfg (es @ Deactivate # es') (init a d)) =
           store (run h cfg (filter is_env es') (run h cfg es (init a d))) \<and>
         doc (run h cfg (es @ Deactivate # es') (init a d)) =
           doc (run h cfg (filter is_env es') (run h cfg es (init a d)))"
proof -
  let ?s = "run h cfg es (init a d)"
  have con: "consistent cfg ?s" by (rule consistent_reachable)
  note q = quiet_deactivate [OF con assms]
  have d: "state_of (step h cfg Deactivate ?s) = deactivate ?s" using assms(1) by simp
  have r: "run h cfg (es @ Deactivate # es') (init a d) = run h cfg es' (deactivate ?s)"
    "run h cfg (es @ [Deactivate]) (init a d) = deactivate ?s"
    using d by (simp_all add: run_append run_Cons run_Nil)
  have "quiet (deactivate ?s)" "store (deactivate ?s) = store ?s" "doc (deactivate ?s) = doc ?s"
    "fresh (deactivate ?s) = fresh ?s" using q by simp_all
  from quiet_run [OF this, of h cfg es'] q r show ?thesis by (simp add: quiet_def)
qed

theorem deactivation_before_resolution_witness:
  "phase (run example_host periodic_config [Activate, Tick, Timeout] (init [] [])) = Mounted \<and>
   canvasRef (run example_host periodic_config [Activate, Tick, Timeout] (init [] [])) = None \<and>
   timeouts (run example_host periodic_config [Activate, Tick, Timeout] (init [] [])) = [2] \<and>
   interval_armed (run example_host periodic_config [Activate, Tick, Timeout] (init [] [])) \<and>
   timeouts (run example_host periodic_config ([Activate, Tick, Timeout] @ [Deactivate])
      (init [] [])) = [] \<and>
   timeouts (run example_host periodic_config ([Activate, Tick, Timeout] @ Deactivate #
      [EnvAppend (element_with_id Canvas ''c''), Timeout, Tick, FrameCallback, Invoke])
      (init [] [])) = [] \<and>
   \<not> interval_armed (run example_host periodic_config ([Activate, Tick, Timeout] @ Deactivate #
      [EnvAppend (element_with_id Canvas ''c''), Timeout, Tick, FrameCallback, Invoke])
      (init [] [])) \<and>
   created (run example_host periodic_config ([Activate, Tick, Timeout] @ Deactivate #
      [EnvAppend (element_with_id Canvas ''c''), Timeout, Tick, FrameCallback, Invoke])
      (init [] [])) = [] \<and>
   doc (run example_host periodic_config ([Activate, Tick, Timeout] @ Deactivate #
      [EnvAppend (element_with_id Canvas ''c''), Timeout, Tick, FrameCallback, Invoke])
      (init [] [])) =
   doc (run example_host periodic_config
      (filter is_env [EnvAppend (element_with_id Canvas ''c''), Timeout, Tick, FrameCallback, Invoke])
      (run example_host periodic_config [Activate, Tick, Timeout] (init [] []))) \<and>
   doc (run example_host periodic_config
      (filter is_env [EnvAppend (element_with_id Canvas ''c''), Timeout, Tick, FrameCallback, Invoke])
      (run example_host periodic_config [Activate, Tick, Timeout] (init [] []))) = [0]"
proof -
  let ?es = "[Activate, Tick, Timeout]"
  let ?es' = "[EnvAppend (element_with_id Canvas ''c''), Timeout, Tick, FrameCallback, Invoke]"
  let ?s = "run example_host periodic_config ?es (init [] [])"
  have h1: "phase ?s = Mounted" by (simp add: evaluate)
  have h2: "canvasRef ?s = None" by (simp add: evaluate)
  have h3: "timeouts ?s = [2]" by (simp add: evaluate)
  have h4: "interval_armed ?s" by (simp add: evaluate)
  note T = deactivation_before_resolution [OF h1 h2, of ?es']
  have c1: "timeouts (run example_host periodic_config (?es @ [Deactivate]) (init [] [])) = []"
    using T by blast
  have c2: "timeouts (run example_host periodic_config (?es @ Deactivate # ?es') (init [] [])) = []"
    using T by blast
  have c3: "\<not> interval_armed (run example_host periodic_config (?es @ Deactivate # ?es') (init [] []))"
    using T by blast
  have c4: "created (run example_host periodic_config (?es @ Deactivate # ?es') (init [] [])) = []"
    using T by blast
  have c5: "doc (run example_host periodic_config (?es @ Deactivate # ?es') (init [] [])) =
    doc (run example_host periodic_config (filter is_env ?es') ?s)"
    using T by blast
  have c6: "doc (run example_host periodic_config (filter is_env ?es') ?s) = [0]"
    by (simp add: evaluate)
  show ?thesis by (intro conjI h1 h2 h3 h4 c1 c2 c3 c4 c5 c6)
qed

subsection \<open>Captures that run late\<close>

lemma imgRef_step:
  assumes con: "consistent cfg s" and i: "imgRef s = Some i"
  shows "imgRef (state_of (step h cfg e s)) = Some i"
proof -
  have c: "canvasRef s \<noteq> None" using con i by (auto simp: consistent_def)
  show ?thesis
  proof (cases e)
    case Activate
    have "phase s \<noteq> Unmounted" using con c by (auto simp: consistent_def)
    then show ?thesis using Activate i by simp
  next
    case Invoke
    then show ?thesis using i
      by (cases "useCanvasImage_return cfg") (auto simp: createImgSrc_def)
  next
    case Timeout
    have "timeouts s = []" using con c by (simp add: consistent_def)
    then show ?thesis using Timeout i by simp
  next
    case Tick
    then show ?thesis using i by (auto simp: createImgSrc_def)
  next
    case FrameCallback
    have "imgRef (state_of (frame_callback h cfg s')) = imgRef s'" for s'
      by (auto simp: frame_callback_def set_attr_def update_element_def
          split: option.split sum.split)
    from this [of "s\<lparr>frames := frames s - 1\<rparr>"] show ?thesis
      using i FrameCallback by auto
  next
    case Deactivate
    then show ?thesis using i
      by (auto simp: deactivate_def cleanup_def clearTimeout_def split: option.splits)
  next
    case (EnvAppend el)
    then show ?thesis using i by (simp add: append_element_def)
  next
    case (EnvSetRef r)
    then show ?thesis using i by simp
  qed
qed

lemma imgRef_run:
  "consistent cfg s \<Longrightarrow> imgRef s = Some i \<Longrightarrow> imgRef (run h cfg es s) = Some i"
  by (induction es arbitrary: s) (simp_all add: run_Nil run_Cons consistent_step imgRef_step)

text \<open>
  C6, as stated, fails: no code clears \<open>canvasRef.current\<close> or \<open>imgRef.current\<close>, the
  cleanup of the effect only clears the retry timeout. A capture queued before an
  unmount that follows setup therefore still finds both refs when it runs: the callback
  reads the canvas and rewrites the image's \<open>src\<close> after deactivation.
\<close>

theorem capture_runs_after_deactivation:
  "phase (run example_host manual_config [Activate, Invoke, Deactivate]
      (init [element_with_id Canvas ''c''] [])) = TornDown \<and>
   frames (run example_host manual_config [Activate, Invoke, Deactivate]
      (init [element_with_id Canvas ''c''] [])) = 1 \<and>
   reads (run example_host manual_config [Activate, Invoke, Deactivate]
      (init [element_with_id Canvas ''c''] [])) = 0 \<and>
   attr_of (run example_host manual_config [Activate, Invoke, Deactivate]
      (init [element_with_id Canvas ''c''] [])) 1 ''src'' = None \<and>
   thrown (step example_host manual_config FrameCallback
      (run example_host manual_config [Activate, Invoke, Deactivate]
         (init [element_with_id Canvas ''c''] []))) = None \<and>
   reads (run example_host manual_config [Activate, Invoke, Deactivate, FrameCallback]
      (init [element_with_id Canvas ''c''] [])) = 1 \<and>
   attr_of (run example_host manual_config [Activate, Invoke, Deactivate, FrameCallback]
      (init [element_with_id Canvas ''c''] [])) 1 ''src'' = Some ''data:image/jpeg,px''"
  by (simp add: evaluate)

text \<open>
  C6, amended. A queued capture that runs while \<open>canvasRef.current\<close> or
  \<open>imgRef.current\<close> is unset, in any state and so also after deactivation, is abandoned:
  the callback returns without an exception and leaves the whole state as it was (no
  timeout is scheduled, no element and hence no image source is changed); only the
  callback itself is gone from the frame queue. Once set, either ref keeps its value
  through every later event, deactivation included, so the abandoned captures are those
  that run before setup has produced both. A capture that runs with both refs set and a
  canvas as handle, deactivated or not, is carried out: it returns normally, makes one
  read and assigns the encoding to the image's \<open>src\<close>.
\<close>

theorem capture_abandoned_only_while_ref_unset:
  "((canvasRef t = None \<or> imgRef t = None) \<and> 0 < frames t \<longrightarrow>
      step h cfg FrameCallback t = Returns (t\<lparr>frames := frames t - 1\<rparr>)) \<and>
   (\<forall>c. canvasRef (run h cfg es (init a d)) = Some c \<longrightarrow>
      canvasRef (run h cfg es' (run h cfg es (init a d))) = Some c) \<and>
   (\<forall>i. imgRef (run h cfg es (init a d)) = Some i \<longrightarrow>
      imgRef (run h cfg es' (run h cfg es (init a d))) = Some i) \<and>
   (\<forall>c i el. canvasRef t = Some c \<and> imgRef t = Some i \<and> store t i \<noteq> None \<and>
      store t c = Some el \<and> kind el = Canvas \<and> 0 < frames t \<longrightarrow>
      thrown (step h cfg FrameCallback t) = None \<and>
      reads (state_of (step h cfg FrameCallback t)) = Suc (reads t) \<and>
      attr_of (state_of (step h cfg FrameCallback t)) i ''src'' =
        Some (encode h (pixels el) (fileType cfg) (quality cfg)))"
proof -
  let ?s = "run h cfg es (init a d)"
  have con: "consistent cfg ?s" by (rule consistent_reachable)
  have 1: "(canvasRef t = None \<or> imgRef t = None) \<and> 0 < frames t \<longrightarrow>
      step h cfg FrameCallback t = Returns (t\<lparr>frames := frames t - 1\<rparr>)"
    by (auto simp: frame_callback_def split: option.split)
  have 2: "\<forall>c. canvasRef ?s = Some c \<longrightarrow> canvasRef (run h cfg es' ?s) = Some c"
    using con canvasRef_run by blast
  have 3: "\<forall>i. imgRef ?s = Some i \<longrightarrow> imgRef (run h cfg es' ?s) = Some i"
    using con imgRef_run by blast
  have 4: "thrown (step h cfg FrameCallback t) = None \<and>
      reads (state_of (step h cfg FrameCallback t)) = Suc (reads t) \<and>
      attr_of (state_of (step h cfg FrameCallback t)) i ''src'' =
        Some (encode h (pixels el) (fileType cfg) (quality cfg))"
    if "canvasRef t = Some c \<and> imgRef t = Some i \<and> store t i \<noteq> None \<and>
      store t c = Some el \<and> kind el = Canvas \<and> 0 < frames t" for c i el
  proof -
    have "capturable t c i (pixels el)" using that by (simp add: capturable_def)
    moreover have "0 < frames t" using that by simp
    ultimately show ?thesis using capture_step [of t c i "pixels el" h cfg] by simp
  qed
  show ?thesis using 1 2 3 4 by blast
qed

theorem capture_abandoned_only_while_ref_unset_witness:
  "canvasRef (run example_host manual_config [Activate, Invoke, Deactivate] (init [] [])) = None \<and>
   0 < frames (run example_host manual_config [Activate, Invoke, Deactivate] (init [] [])) \<and>
   phase (run example_host manual_config [Activate, Invoke, Deactivate] (init [] [])) = TornDown \<and>
   step example_host manual_config FrameCallback
     (run example_host manual_config [Activate, Invoke, Deactivate] (init [] [])) =
   Returns ((run example_host manual_config [Activate, Invoke, Deactivate] (init [] []))
     \<lparr>frames := frames (run example_host manual_config [Activate, Invoke, Deactivate]
        (init [] [])) - 1\<rparr>) \<and>
   canvasRef (run example_host manual_config [Activate]
      (init [element_with_id Canvas ''c''] [])) = Some 0 \<and>
   imgRef (run example_host manual_config [Activate]
      (init [element_with_id Canvas ''c''] [])) = Some 1 \<and>
   canvasRef (run example_host manual_config [Invoke, Deactivate]
      (run example_host manual_config [Activate] (init [element_with_id Canvas ''c''] []))) = Some 0 \<and>
   imgRef (run example_host manual_config [Invoke, Deactivate]
      (run example_host manual_config [Activate] (init [element_with_id Canvas ''c''] []))) = Some 1 \<and>
   phase (run example_host manual_config [Activate, Invoke, Deactivate]
      (init [element_with_id Canvas ''c''] [])) = TornDown \<and>
   0 < frames (run example_host manual_config [Activate, Invoke, Deactivate]
      (init [element_with_id Canvas ''c''] [])) \<and>
   reads (state_of (step example_host manual_config FrameCallback
      (run example_host manual_config [Activate, Invoke, Deactivate]
         (init [element_with_id Canvas ''c''] [])))) =
   Suc (reads (run example_host manual_config [Activate, Invoke, Deactivate]
      (init [element_with_id Canvas ''c''] [])))"
proof -
  let ?u = "run example_host manual_config [Activate, Invoke, Deactivate] (init [] [])"
  let ?s = "run example_host manual_config [Activate] (init [element_with_id Canvas ''c''] [])"
  let ?v = "run example_host manual_config [Activate, Invoke, Deactivate]
      (init [element_with_id Canvas ''c''] [])"
  let ?el = "the (store ?v 0)"
  note U = capture_abandoned_only_while_ref_unset [of ?u example_host manual_config
      "[Activate]" "[element_with_id Canvas ''c'']" "[]" "[Invoke, Deactivate]"]
  note V = capture_abandoned_only_while_ref_unset [of ?v example_host manual_config
      "[Activate]" "[element_with_id Canvas ''c'']" "[]" "[Invoke, Deactivate]"]
  have u1: "canvasRef ?u = None" by (simp add: evaluate)
  have u2: "0 < frames ?u" by (simp add: evaluate)
  have u3: "phase ?u = TornDown" by (simp add: evaluate)
  have u4: "step example_host manual_config FrameCallback ?u =
      Returns (?u\<lparr>frames := frames ?u - 1\<rparr>)"
    using U u1 u2 by blast
  have s1: "canvasRef ?s = Some 0" by (simp add: evaluate)
  have s2: "imgRef ?s = Some 1" by (simp add: evaluate)
  have s3: "canvasRef (run example_host manual_config [Invoke, Deactivate] ?s) = Some 0"
    using U s1 by blast
  have s4: "imgRef (run example_host manual_config [Invoke, Deactivate] ?s) = Some 1"
    using U s2 by blast
  have v1: "phase ?v = TornDown" by (simp add: evaluate)
  have v2: "0 < frames ?v" by (simp add: evaluate)
  have v3: "canvasRef ?v = Some 0 \<and> imgRef ?v = Some 1 \<and> store ?v 1 \<noteq> None \<and>
      store ?v 0 = Some ?el \<and> kind ?el = Canvas \<and> 0 < frames ?v"
    by (simp add: evaluate)
  have v4: "reads (state_of (step example_host manual_config FrameCallback ?v)) = Suc (reads ?v)"
    using V v3 by blast
  show ?thesis by (intro conjI u1 u2 u3 u4 s1 s2 s3 s4 v1 v2 v4)
qed

end
